theory Spec2Isabelle
  imports Complex_Main "HOL-Library.Multiset" "HOL-Library.Log_Nat"
begin

section \<open>Repetition code notebook: data model\<close>

text \<open>
  The notebook \<^verbatim>\<open>Repetition_Code.ipynb\<close> is Python 3. Its probabilities are Python
  floats, binary64 numbers, obtained as \<^verbatim>\<open>count / shots\<close> with 8192 shots. A float is
  modelled by the rational number it stands for. On the way from the counts of the
  backend into the lookup tables the arithmetic is written as exact arithmetic: a
  quotient \<open>k / 8192\<close> of a count and every sum of such quotients up to 1 is a
  binary64 number, so nothing is rounded there. The decoder \<open>CalculateError\<close> is stated
  about arbitrary tables, where sums are rounded; it is given twice, in exact arithmetic
  (\<open>CalculateError\<close>, for the statements the spec makes in exact arithmetic) and in the
  arithmetic of Python (\<open>CalculateError_float\<close>, which is what \<open>GetData\<close> calls).

  A Python \<^verbatim>\<open>dict\<close> with string keys is represented by the list of its items in insertion
  order. Python dictionaries never hold a key twice: \<open>dict_ok\<close> says so, and the operations
  below keep it.
\<close>

text \<open>
  The exceptions of the model. \<open>QISKitError\<close> stands for whatever a call into the QISKit
  library raises.
\<close>

datatype error = IndexError | KeyError | TypeError | QISKitError

type_synonym dict = "(string \<times> rat) list"

definition keys :: "(string \<times> 'v) list \<Rightarrow> string list" where
  "keys results = map fst results"

definition dict_ok :: "(string \<times> 'v) list \<Rightarrow> bool" where
  "dict_ok results = distinct (keys results)"

text \<open>\<^verbatim>\<open>sum(results.values())\<close>, the total mass of a distribution.\<close>

definition mass :: "dict \<Rightarrow> rat" where
  "mass results = sum_list (map snd results)"

text \<open>
  \<^verbatim>\<open>results[string] = v\<close>: an existing key keeps its place and gets the new value, a new
  key is appended.
\<close>

fun dict_set :: "(string \<times> 'v) list \<Rightarrow> string \<Rightarrow> 'v \<Rightarrow> (string \<times> 'v) list" where
  "dict_set [] string v = [(string, v)]"
| "dict_set ((k, w) # rest) string v =
     (if k = string then (k, v) # rest else (k, w) # dict_set rest string v)"

text \<open>\<^verbatim>\<open>results[string]\<close> as an expression raises \<^verbatim>\<open>KeyError\<close> on a missing key.\<close>

definition dict_get :: "(string \<times> 'v) list \<Rightarrow> string \<Rightarrow> error + 'v" where
  "dict_get results string =
     (case map_of results string of None \<Rightarrow> Inl KeyError | Some v \<Rightarrow> Inr v)"

text \<open>
  Python indexing of a list or a string by an integer: a negative index counts from the
  end, and an index outside \<^verbatim>\<open>-len .. len-1\<close> raises \<^verbatim>\<open>IndexError\<close>.
\<close>

definition py_index :: "'a list \<Rightarrow> int \<Rightarrow> error + 'a" where
  "py_index xs i =
     (if 0 \<le> i \<and> i < int (length xs) then Inr (xs ! nat i)
      else if - int (length xs) \<le> i \<and> i < 0 then Inr (xs ! nat (int (length xs) + i))
      else Inl IndexError)"

text \<open>\<^verbatim>\<open>range(n)\<close> for an integer \<open>n\<close> (empty when \<open>n \<le> 0\<close>).\<close>

definition py_range :: "int \<Rightarrow> int list" where
  "py_range n = [0..n - 1]"

section \<open>AddProbToResults\<close>

text \<open>
  \<^verbatim>\<open>
  def AddProbToResults(prob,string,results):
      if string not in results.keys():
          results[string] = 0
      results[string] += prob
  \<close>
  The dictionary is mutated in place; the model returns the new dictionary.
\<close>

definition AddProbToResults :: "rat \<Rightarrow> string \<Rightarrow> dict \<Rightarrow> error + dict" where
  "AddProbToResults prob string results =
     (let results1 = (if string \<notin> set (keys results) then dict_set results string 0 else results)
      in case dict_get results1 string of
           Inl e \<Rightarrow> Inl e
         | Inr old \<Rightarrow> Inr (dict_set results1 string (old + prob)))"

section \<open>CalculateError\<close>

text \<open>
  \<^verbatim>\<open>
  def CalculateError (bit,results):
      error = 0
      for string in results[bit].keys():
          right = results[bit][string]
          wrong = 0
          if string in results[(bit+1)%2].keys():
              wrong = results[(bit+1)%2][string]
          if (wrong>right):
              error += right
          elif (wrong==right):
              error += 0.5*right
      return error
  \<close>
  \<open>results\<close> is a Python list of dictionaries, indexed by \<open>bit\<close> and by
  \<open>(bit+1) % 2\<close>. The loop runs over the items of \<open>results[bit]\<close>: the loop variable is the
  key and \<open>right\<close> the value stored under it. The other table is indexed inside the loop
  body, so a bad index there only raises when the loop body runs. \<open>add_error\<close> is the
  \<^verbatim>\<open>if\<close>/\<^verbatim>\<open>elif\<close> that closes the body. The parameter \<^verbatim>\<open>bit\<close> is written \<open>ebit\<close> (the
  encoded bit).

  First the function in exact arithmetic: \<open>+\<close> and \<open>*\<close> are those of the rationals.
\<close>

definition add_error :: "rat \<Rightarrow> rat \<Rightarrow> rat \<Rightarrow> rat" where
  "add_error error right wrong =
     (if wrong > right then error + right
      else if wrong = right then error + 0.5 * right
      else error)"

fun CalculateError_loop :: "int \<Rightarrow> dict list \<Rightarrow> dict \<Rightarrow> rat \<Rightarrow> error + rat" where
  "CalculateError_loop ebit results [] error = Inr error"
| "CalculateError_loop ebit results ((string, right) # rest) error =
     (case py_index results ((ebit + 1) mod 2) of
        Inl e \<Rightarrow> Inl e
      | Inr other \<Rightarrow>
          (case (if string \<in> set (keys other) then dict_get other string else Inr 0) of
             Inl e \<Rightarrow> Inl e
           | Inr wrong \<Rightarrow>
               CalculateError_loop ebit results rest (add_error error right wrong)))"

definition CalculateError :: "int \<Rightarrow> dict list \<Rightarrow> error + rat" where
  "CalculateError ebit results =
     (case py_index results ebit of
        Inl e \<Rightarrow> Inl e
      | Inr table \<Rightarrow> CalculateError_loop ebit results table 0)"

section \<open>CalculateError in the arithmetic of Python\<close>

text \<open>
  A Python float is a binary64 number: \<open>m * 2\<^sup>g\<close> with an integer \<open>\<bar>m\<bar> < 2\<^sup>5\<^sup>3\<close> and
  \<open>- 1074 \<le> g\<close>. Every \<^verbatim>\<open>+\<close> and \<^verbatim>\<open>*\<close> on floats gives the exact result rounded to the
  nearest such number, a tie going to the even \<open>m\<close>.

  \<open>round_even\<close> rounds a rational to the nearest integer, ties to even. \<open>expo x\<close> is
  the exponent of a positive \<open>x\<close>, the \<open>e\<close> with \<open>2\<^sup>e \<le> x < 2\<^sup>e\<^sup>+\<^sup>1\<close>, found from the bit
  lengths of numerator and denominator. \<open>grid x\<close> is the exponent \<open>g\<close> of the spacing of
  the binary64 numbers around \<open>x\<close>: 52 below the exponent of \<open>x\<close>, and \<open>- 1074\<close> for the
  subnormal numbers. \<open>round_double x\<close> is the multiple of \<open>2\<^sup>g\<close> nearest to \<open>x\<close>. There
  is no upper end in this model: a result beyond the largest binary64 number, which
  Python turns into \<^verbatim>\<open>inf\<close>, is not modelled, and the statements below are about sums
  that stay at most 1.
\<close>

definition round_even :: "rat \<Rightarrow> int" where
  "round_even y =
     (let f = \<lfloor>y\<rfloor>; r = y - of_int f
      in if r < 1 / 2 then f else if 1 / 2 < r then f + 1 else if even f then f else f + 1)"

definition expo :: "rat \<Rightarrow> int" where
  "expo x =
     (case quotient_of x of (p, q) \<Rightarrow>
        (let e = bitlen p - bitlen q in if 2 powi e \<le> x then e else e - 1))"

definition grid :: "rat \<Rightarrow> int" where
  "grid x = max (expo \<bar>x\<bar> - 52) (- 1074)"

definition round_double :: "rat \<Rightarrow> rat" where
  "round_double x =
     (if x = 0 then 0 else 2 powi grid x * of_int (round_even (x / 2 powi grid x)))"

text \<open>The rationals that are binary64 numbers are those that rounding leaves alone.\<close>

definition is_double :: "rat \<Rightarrow> bool" where
  "is_double x = (round_double x = x)"

text \<open>
  The body of the loop with the roundings Python makes: \<^verbatim>\<open>error += right\<close> rounds the
  sum, \<^verbatim>\<open>error += 0.5*right\<close> rounds the product and then the sum. The comparisons
  \<^verbatim>\<open>wrong>right\<close> and \<^verbatim>\<open>wrong==right\<close> are exact. The rest of the function is as above.
\<close>

definition add_error_float :: "rat \<Rightarrow> rat \<Rightarrow> rat \<Rightarrow> rat" where
  "add_error_float error right wrong =
     (if wrong > right then round_double (error + right)
      else if wrong = right then round_double (error + round_double (0.5 * right))
      else error)"

fun CalculateError_float_loop :: "int \<Rightarrow> dict list \<Rightarrow> dict \<Rightarrow> rat \<Rightarrow> error + rat" where
  "CalculateError_float_loop ebit results [] error = Inr error"
| "CalculateError_float_loop ebit results ((string, right) # rest) error =
     (case py_index results ((ebit + 1) mod 2) of
        Inl e \<Rightarrow> Inl e
      | Inr other \<Rightarrow>
          (case (if string \<in> set (keys other) then dict_get other string else Inr 0) of
             Inl e \<Rightarrow> Inl e
           | Inr wrong \<Rightarrow>
               CalculateError_float_loop ebit results rest (add_error_float error right wrong)))"

definition CalculateError_float :: "int \<Rightarrow> dict list \<Rightarrow> error + rat" where
  "CalculateError_float ebit results =
     (case py_index results ebit of
        Inl e \<Rightarrow> Inl e
      | Inr table \<Rightarrow> CalculateError_float_loop ebit results table 0)"

section \<open>GetAddress, AddError, AddCnot\<close>

text \<open>
  \<^verbatim>\<open>
  def GetAddress (codeQubit,offset,simulator):
      if (simulator):
          address = 2*codeQubit + offset
      else:
          address = (5-2*codeQubit-offset)%16
      return address
  \<close>
  Python's \<^verbatim>\<open>%\<close> with a positive modulus is never negative, as \<open>mod\<close> on \<open>int\<close>.
\<close>

definition GetAddress :: "int \<Rightarrow> int \<Rightarrow> bool \<Rightarrow> int" where
  "GetAddress codeQubit offset simulator =
     (if simulator then 2 * codeQubit + offset else (5 - 2 * codeQubit - offset) mod 16)"

text \<open>
  The circuit is the list of the gate calls made on \<^verbatim>\<open>repetitionScript\<close>, each with the
  register addresses it was given. \<open>U3 frac a\<close> stands for
  \<^verbatim>\<open>script.u3(frac * math.pi, 0.0, 0.0, q[a])\<close>, \<open>CX a b\<close> for \<^verbatim>\<open>script.cx(q[a], q[b])\<close> and
  \<open>Measure a b\<close> for \<^verbatim>\<open>script.measure(q[a], c[b])\<close>.
\<close>

datatype gate = X int | Barrier | U3 rat int | CX int int | H int | Measure int int

text \<open>
  The circuit is built through the QISKit library, which the notebook imports and does
  not contain: \<^verbatim>\<open>QuantumProgram(specs=Q_SPECS)\<close> makes a quantum register \<^verbatim>\<open>q\<close> and a
  classical register \<^verbatim>\<open>c\<close> of \<open>num\<close> bits each, \<^verbatim>\<open>q[address]\<close> and \<^verbatim>\<open>c[address]\<close> pick a bit
  of a register, and the methods \<^verbatim>\<open>x\<close>, \<^verbatim>\<open>u3\<close>, \<^verbatim>\<open>cx\<close>, \<^verbatim>\<open>h\<close>, \<^verbatim>\<open>barrier\<close> and \<^verbatim>\<open>measure\<close> add a gate
  to the circuit. Any of these calls may raise instead of returning. What the library
  does there is a parameter of the model: \<open>makes_registers lib num\<close> says that the
  program with its registers of size \<open>num\<close> is made, and \<open>accepts lib num g\<close> that the
  gate call \<open>g\<close>, with the lookups \<^verbatim>\<open>q[\<dots>]\<close> and \<^verbatim>\<open>c[\<dots>]\<close> among its arguments, returns on
  registers of size \<open>num\<close>. A gate call that returns adds its gate to the circuit; one
  that raises ends the function that made it.
\<close>

record library =
  makes_registers :: "int \<Rightarrow> bool"
  accepts :: "int \<Rightarrow> gate \<Rightarrow> bool"

definition add_gate :: "library \<Rightarrow> int \<Rightarrow> gate list \<Rightarrow> gate \<Rightarrow> error + gate list" where
  "add_gate lib num script g =
     (if accepts lib num g then Inr (script @ [g]) else Inl QISKitError)"

text \<open>Gate calls made one after the other; the first that raises ends the sequence.\<close>

fun add_gates :: "library \<Rightarrow> int \<Rightarrow> gate list \<Rightarrow> gate list \<Rightarrow> error + gate list" where
  "add_gates lib num script [] = Inr script"
| "add_gates lib num script (g # gs) =
     (case add_gate lib num script g of
        Inl e \<Rightarrow> Inl e
      | Inr script' \<Rightarrow> add_gates lib num script' gs)"

text \<open>\<^verbatim>\<open>range(start, stop, 2)\<close>.\<close>

definition py_range_step2 :: "int \<Rightarrow> int \<Rightarrow> int list" where
  "py_range_step2 start stop = filter (\<lambda>a. (a - start) mod 2 = 0) [start..stop - 1]"

text \<open>
  \<^verbatim>\<open>
  def AddError (script,q,num,simulator,bit):
      fracAncilla = 0.05
      fracCode = fracAncilla
      if (bit==1):
          fracCode = fracCode*2
      if (simulator):
          for address in range(0,num-1,2): # code qubits
              script.u3(fracCode * math.pi, 0.0, 0.0, q[address])
          for address in range(1,num-1,2): # ancilla qubits
              script.u3(fracAncilla * math.pi, 0.0, 0.0, q[address])
          script.u3(fracCode * math.pi, 0.0, 0.0, q[num-1]) # single qubit
          script.barrier()
  \<close>
  The register \<^verbatim>\<open>q\<close> handed over is, in the model, the library and the size \<open>num\<close>.
\<close>

definition AddError :: "library \<Rightarrow> gate list \<Rightarrow> int \<Rightarrow> bool \<Rightarrow> int \<Rightarrow> error + gate list" where
  "AddError lib script num simulator ebit =
     (let fracAncilla = 0.05;
          fracCode = (if ebit = 1 then fracAncilla * 2 else fracAncilla)
      in if simulator
         then add_gates lib num script
                (map (U3 fracCode) (py_range_step2 0 (num - 1))
                 @ map (U3 fracAncilla) (py_range_step2 1 (num - 1))
                 @ [U3 fracCode (num - 1), Barrier])
         else Inr script)"

definition coupling_map :: "(int \<times> int list) list" where
  "coupling_map =
     [(0, [1]), (1, [2]), (2, [3]), (3, [14]), (4, [3, 5]), (5, []), (6, [7, 11]), (7, [10]),
      (8, [7]), (9, [10, 8]), (10, []), (11, [10]), (12, [5, 11, 13]), (13, [4, 14]), (14, []),
      (15, [0, 14])]"

text \<open>
  \<^verbatim>\<open>
  def AddCnot(repetitionScript,q,control,target,simulator):
      coupling_map = {0: [1], ..., 15: [0, 14]}
      if ( target in coupling_map[control] or simulator):
          repetitionScript.cx(q[control], q[target])
      elif ( control in coupling_map[target] ):
          repetitionScript.h(q[control])
          repetitionScript.h(q[target])
          repetitionScript.cx(q[target], q[control])
          repetitionScript.h(q[control])
          repetitionScript.h(q[target])
      else:
          print('Qubits ' + str(control) + ' and ' + str(target) + ' cannot be entangled.')
  \<close>
  \<^verbatim>\<open>coupling_map[control]\<close> is read before \<^verbatim>\<open>simulator\<close> is looked at, so an address outside
  \<open>0..15\<close> raises \<^verbatim>\<open>KeyError\<close> on a simulator too. The message of the last branch goes to
  the standard output and leaves the circuit as it is.
\<close>

definition AddCnot ::
  "library \<Rightarrow> int \<Rightarrow> gate list \<Rightarrow> int \<Rightarrow> int \<Rightarrow> bool \<Rightarrow> error + gate list" where
  "AddCnot lib num repetitionScript control target simulator =
     (case map_of coupling_map control of
        None \<Rightarrow> Inl KeyError
      | Some targets \<Rightarrow>
          if target \<in> set targets \<or> simulator
          then add_gate lib num repetitionScript (CX control target)
          else (case map_of coupling_map target of
                  None \<Rightarrow> Inl KeyError
                | Some controls \<Rightarrow>
                    if control \<in> set controls
                    then add_gates lib num repetitionScript
                           [H control, H target, CX target control, H control, H target]
                    else Inr repetitionScript))"

section \<open>RunRepetition\<close>

text \<open>
  The first half of \<^verbatim>\<open>RunRepetition(bit,d,device)\<close> builds the circuit:
  \<^verbatim>\<open>
      simulator = (device!='ibmqx3')
      if (simulator):
          num = 2*d
      else:
          num = 16
      Q_SPECS = { ... "quantum_registers": [{"name": "q", "size": num}],
                      "classical_registers": [{"name": "c", "size": num}] ... }
      Q_program = QuantumProgram(specs=Q_SPECS)
      repetitionScript = Q_program.get_circuit("repetitionScript")
      q = Q_program.get_quantum_registers("q")
      c = Q_program.get_classical_registers("c")
      if (bit==1):
          for codeQubit in range(d):
              repetitionScript.x( q[GetAddress(codeQubit,0,simulator)] )
          repetitionScript.x( q[GetAddress(d-1,1,simulator)] )
      repetitionScript.barrier()
      AddError(repetitionScript,q,num,simulator,bit)
      for codeQubit in range(d-1):
          AddCnot(repetitionScript,q,GetAddress(codeQubit,0,simulator),GetAddress(codeQubit,1,simulator),simulator)
      repetitionScript.barrier()
      AddError(repetitionScript,q,num,simulator,bit)
      for codeQubit in range(1,d):
          AddCnot(repetitionScript,q,GetAddress(codeQubit,0,simulator),GetAddress(codeQubit,-1,simulator),simulator)
      repetitionScript.barrier()
      AddError(repetitionScript,q,num,simulator,bit)
      for address in range(num):
          repetitionScript.measure(q[address], c[address])
  \<close>
  Making the program and its registers is the first call into the library; when it
  raises, no gate call is made. There is no test on \<open>d\<close> in the notebook: the loops over
  \<^verbatim>\<open>range(d)\<close>, \<^verbatim>\<open>range(d-1)\<close> and \<^verbatim>\<open>range(1,d)\<close> are empty when \<open>d\<close> is too small for them.
  Between the circuit and the loop that runs the job stands
  \<^verbatim>\<open>Q_program.set_api(Qconfig.APItoken, Qconfig.config["url"])\<close>, which records the
  account and is taken to return.
\<close>

definition num_qubits :: "int \<Rightarrow> bool \<Rightarrow> int" where
  "num_qubits d simulator = (if simulator then 2 * d else 16)"

fun AddCnot_loop ::
  "library \<Rightarrow> int \<Rightarrow> gate list \<Rightarrow> int list \<Rightarrow> int \<Rightarrow> bool \<Rightarrow> error + gate list" where
  "AddCnot_loop lib num script [] offset simulator = Inr script"
| "AddCnot_loop lib num script (codeQubit # rest) offset simulator =
     (case AddCnot lib num script (GetAddress codeQubit 0 simulator)
                                  (GetAddress codeQubit offset simulator) simulator of
        Inl e \<Rightarrow> Inl e
      | Inr script' \<Rightarrow> AddCnot_loop lib num script' rest offset simulator)"

text \<open>The gate calls up to the first barrier: the \<^verbatim>\<open>x\<close> gates of the stored bit 1, and the barrier.\<close>

definition encode_gates :: "int \<Rightarrow> int \<Rightarrow> bool \<Rightarrow> gate list" where
  "encode_gates ebit d simulator =
     (if ebit = 1
      then map (\<lambda>codeQubit. X (GetAddress codeQubit 0 simulator)) (py_range d)
           @ [X (GetAddress (d - 1) 1 simulator)]
      else []) @ [Barrier]"

definition RunRepetition_circuit :: "library \<Rightarrow> int \<Rightarrow> int \<Rightarrow> string \<Rightarrow> error + gate list" where
  "RunRepetition_circuit lib ebit d device =
     (let simulator = (device \<noteq> ''ibmqx3'');
          num = num_qubits d simulator
      in if \<not> makes_registers lib num then Inl QISKitError
         else
           case add_gates lib num [] (encode_gates ebit d simulator) of Inl e \<Rightarrow> Inl e | Inr s1 \<Rightarrow>
           case AddError lib s1 num simulator ebit of Inl e \<Rightarrow> Inl e | Inr s2 \<Rightarrow>
           case AddCnot_loop lib num s2 (py_range (d - 1)) 1 simulator of Inl e \<Rightarrow> Inl e | Inr s3 \<Rightarrow>
           case add_gate lib num s3 Barrier of Inl e \<Rightarrow> Inl e | Inr s4 \<Rightarrow>
           case AddError lib s4 num simulator ebit of Inl e \<Rightarrow> Inl e | Inr s5 \<Rightarrow>
           case AddCnot_loop lib num s5 [1..d - 1] (- 1) simulator of Inl e \<Rightarrow> Inl e | Inr s6 \<Rightarrow>
           case add_gate lib num s6 Barrier of Inl e \<Rightarrow> Inl e | Inr s7 \<Rightarrow>
           case AddError lib s7 num simulator ebit of Inl e \<Rightarrow> Inl e | Inr s8 \<Rightarrow>
             add_gates lib num s8 (map (\<lambda>address. Measure address address) (py_range num)))"

text \<open>
  The second half runs the job:
  \<^verbatim>\<open>
      shots = 8192
      ...
      dataNeeded = True
      while dataNeeded:
          Q_program.execute(["repetitionScript"], device, shots, max_credits=5, wait=10, timeout=500)
          results = Q_program.get_counts("repetitionScript")
          if ('status' not in results.keys()):
              dataNeeded = False
      for key in results.keys():
          results[key] = results[key]/shots
      return results
  \<close>
  The backend is a parameter: its answer to the \<open>n\<close>-th job ever executed, given that job.
  The state threaded through is the number of jobs executed so far. What \<^verbatim>\<open>get_counts\<close>
  returns is a dictionary of Python objects: counts, or whatever an incomplete answer
  holds. The loop has no bound, so it is a partial function: \<open>None\<close> is the run that
  never leaves the loop.
\<close>

datatype pyobj = PyNum rat | PyStr string | PyType_str

type_synonym response = "(string \<times> pyobj) list"

record job =
  job_circuit :: "gate list"
  job_qubits :: int
  job_device :: string
  job_shots :: int

type_synonym backend = "nat \<Rightarrow> job \<Rightarrow> response"

definition shots :: int where
  "shots = 8192"

partial_function (option) execute_loop :: "backend \<Rightarrow> job \<Rightarrow> nat \<Rightarrow> (response \<times> nat) option" where
  "execute_loop backend j n =
     (let results = backend n j
      in if ''status'' \<notin> set (keys results) then Some (results, Suc n)
         else execute_loop backend j (Suc n))"

declare execute_loop.simps [code]

text \<open>\<^verbatim>\<open>results[key]/shots\<close>: true division of a number, \<^verbatim>\<open>TypeError\<close> on anything else.\<close>

fun py_truediv :: "pyobj \<Rightarrow> int \<Rightarrow> error + rat" where
  "py_truediv (PyNum x) n = Inr (x / of_int n)"
| "py_truediv (PyStr s) n = Inl TypeError"
| "py_truediv PyType_str n = Inl TypeError"

fun to_fractions :: "response \<Rightarrow> error + dict" where
  "to_fractions [] = Inr []"
| "to_fractions ((key, v) # rest) =
     (case py_truediv v shots of
        Inl e \<Rightarrow> Inl e
      | Inr x \<Rightarrow> (case to_fractions rest of Inl e \<Rightarrow> Inl e | Inr rest' \<Rightarrow> Inr ((key, x) # rest')))"

text \<open>The job handed to \<^verbatim>\<open>Q_program.execute\<close>: the circuit on its registers, the device, the shots.\<close>

definition job_for :: "int \<Rightarrow> string \<Rightarrow> gate list \<Rightarrow> job" where
  "job_for d device repetitionScript =
     \<lparr>job_circuit = repetitionScript, job_qubits = num_qubits d (device \<noteq> ''ibmqx3''),
      job_device = device, job_shots = shots\<rparr>"

definition RunRepetition ::
  "library \<Rightarrow> int \<Rightarrow> int \<Rightarrow> string \<Rightarrow> backend \<Rightarrow> nat \<Rightarrow> ((error + dict) \<times> nat) option" where
  "RunRepetition lib ebit d device backend n =
     (case RunRepetition_circuit lib ebit d device of
        Inl e \<Rightarrow> Some (Inl e, n)
      | Inr repetitionScript \<Rightarrow>
          (case execute_loop backend (job_for d device repetitionScript) n of
             None \<Rightarrow> None
           | Some (results, n') \<Rightarrow> Some (to_fractions results, n')))"

section \<open>GetData\<close>

text \<open>
  The body of the loop over the raw strings first rebuilds three strings from
  \<open>stringRaw\<close>:
  \<^verbatim>\<open>
      bitNum = len(stringRaw)-1
      stringFull = ''
      for codeQubit in range(d):
          stringFull += stringRaw[bitNum-GetAddress(codeQubit,0,simulator)]
          if (codeQubit!=(d-1)):
              stringFull += stringRaw[bitNum-GetAddress(codeQubit,1,simulator)]
      stringCode = ""
      for n in range(d):
          stringCode += stringFull[2*n]
      stringSingle = stringRaw[bitNum-GetAddress(d-1,1,simulator)]
  \<close>
  Every read of a character is a Python index and can raise \<^verbatim>\<open>IndexError\<close>.
\<close>

fun stringFull_loop :: "string \<Rightarrow> int \<Rightarrow> bool \<Rightarrow> int list \<Rightarrow> string \<Rightarrow> error + string" where
  "stringFull_loop stringRaw d simulator [] stringFull = Inr stringFull"
| "stringFull_loop stringRaw d simulator (codeQubit # rest) stringFull =
     (let bitNum = int (length stringRaw) - 1
      in case py_index stringRaw (bitNum - GetAddress codeQubit 0 simulator) of
           Inl e \<Rightarrow> Inl e
         | Inr c \<Rightarrow>
             if codeQubit \<noteq> d - 1
             then (case py_index stringRaw (bitNum - GetAddress codeQubit 1 simulator) of
                     Inl e \<Rightarrow> Inl e
                   | Inr a \<Rightarrow> stringFull_loop stringRaw d simulator rest (stringFull @ [c, a]))
             else stringFull_loop stringRaw d simulator rest (stringFull @ [c]))"

fun stringCode_loop :: "string \<Rightarrow> int list \<Rightarrow> string \<Rightarrow> error + string" where
  "stringCode_loop stringFull [] stringCode = Inr stringCode"
| "stringCode_loop stringFull (n # rest) stringCode =
     (case py_index stringFull (2 * n) of
        Inl e \<Rightarrow> Inl e
      | Inr c \<Rightarrow> stringCode_loop stringFull rest (stringCode @ [c]))"

definition remap :: "string \<Rightarrow> int \<Rightarrow> bool \<Rightarrow> error + (string \<times> string \<times> string)" where
  "remap stringRaw d simulator =
     (let bitNum = int (length stringRaw) - 1
      in case stringFull_loop stringRaw d simulator (py_range d) [] of
           Inl e \<Rightarrow> Inl e
         | Inr stringFull \<Rightarrow>
             (case stringCode_loop stringFull (py_range d) [] of
                Inl e \<Rightarrow> Inl e
              | Inr stringCode \<Rightarrow>
                  (case py_index stringRaw (bitNum - GetAddress (d - 1) 1 simulator) of
                     Inl e \<Rightarrow> Inl e
                   | Inr c \<Rightarrow> Inr (stringFull, stringCode, [c]))))"

text \<open>
  The loop itself, for one value of the stored bit:
  \<^verbatim>\<open>
      for stringRaw in resultsRaw[bit].keys():
          if resultsRaw[bit][stringRaw] is not str:
              ... (the three strings)
              probToAdd = resultsRaw[bit][stringRaw]
              AddProbToResults(probToAdd,stringFull,resultsFull[bit])
              AddProbToResults(probToAdd,stringCode,resultsCode[bit])
              AddProbToResults(probToAdd,stringSingle,resultsSingle[bit])
  \<close>
  \<^verbatim>\<open>is not\<close> compares object identity, and \<^verbatim>\<open>str\<close> is the type object itself. Objects
  of different kinds are different objects, which is all the guard needs: the values of
  \<open>resultsRaw[bit]\<close> are the quotients computed by \<open>RunRepetition\<close>, numbers.
\<close>

definition py_is_not :: "pyobj \<Rightarrow> pyobj \<Rightarrow> bool" where
  "py_is_not a b = (a \<noteq> b)"

type_synonym views = "dict \<times> dict \<times> dict"

definition add_three :: "rat \<Rightarrow> string \<times> string \<times> string \<Rightarrow> views \<Rightarrow> error + views" where
  "add_three probToAdd strings acc =
     (case (strings, acc) of
        ((stringFull, stringCode, stringSingle), (resultsFull, resultsCode, resultsSingle)) \<Rightarrow>
          (case AddProbToResults probToAdd stringFull resultsFull of
             Inl e \<Rightarrow> Inl e
           | Inr resultsFull' \<Rightarrow>
               (case AddProbToResults probToAdd stringCode resultsCode of
                  Inl e \<Rightarrow> Inl e
                | Inr resultsCode' \<Rightarrow>
                    (case AddProbToResults probToAdd stringSingle resultsSingle of
                       Inl e \<Rightarrow> Inl e
                     | Inr resultsSingle' \<Rightarrow>
                         Inr (resultsFull', resultsCode', resultsSingle')))))"

fun GetData_loop :: "int \<Rightarrow> bool \<Rightarrow> dict \<Rightarrow> views \<Rightarrow> error + views" where
  "GetData_loop d simulator [] acc = Inr acc"
| "GetData_loop d simulator ((stringRaw, v) # rest) acc =
     (if py_is_not (PyNum v) PyType_str
      then (case remap stringRaw d simulator of
              Inl e \<Rightarrow> Inl e
            | Inr strings \<Rightarrow>
                (case add_three v strings acc of
                   Inl e \<Rightarrow> Inl e
                 | Inr acc' \<Rightarrow> GetData_loop d simulator rest acc'))
      else GetData_loop d simulator rest acc)"

text \<open>The same loop with the guard taken out, to compare with.\<close>

fun GetData_loop_unguarded :: "int \<Rightarrow> bool \<Rightarrow> dict \<Rightarrow> views \<Rightarrow> error + views" where
  "GetData_loop_unguarded d simulator [] acc = Inr acc"
| "GetData_loop_unguarded d simulator ((stringRaw, v) # rest) acc =
     (case remap stringRaw d simulator of
        Inl e \<Rightarrow> Inl e
      | Inr strings \<Rightarrow>
          (case add_three v strings acc of
             Inl e \<Rightarrow> Inl e
           | Inr acc' \<Rightarrow> GetData_loop_unguarded d simulator rest acc'))"

text \<open>
  \<^verbatim>\<open>
  def GetData(d,device,verbose):
      simulator = (device!='ibmqx3')
      resultsRaw = [{},{}]
      resultsFull = [{},{}]
      resultsCode = [{},{}]
      resultsSingle = [{},{}]
      for bit in [0,1]:
          resultsRaw[bit] = RunRepetition(bit,d,device)
          for stringRaw in resultsRaw[bit].keys(): ...
      errorFull = [0,0]
      errorCode = [0,0]
      errorSingle = [0,0]
      for bit in [0,1]:
          errorFull[bit] = CalculateError(bit,resultsFull)
          errorCode[bit] = CalculateError(bit,resultsCode)
          errorSingle[bit] = CalculateError(bit,resultsSingle)
      if (verbose): ... (prints a sorted table)
      return errorFull,errorCode,errorSingle
  \<close>
  The table printed under \<open>verbose\<close> goes to the standard output and is not part of the
  value returned; the model keeps the parameter and returns the same value either way.
  The calls of \<^verbatim>\<open>CalculateError\<close> are calls of the function in the arithmetic of Python.
\<close>

definition GetData_bit ::
  "library \<Rightarrow> int \<Rightarrow> int \<Rightarrow> string \<Rightarrow> backend \<Rightarrow> nat \<Rightarrow> ((error + views) \<times> nat) option" where
  "GetData_bit lib ebit d device backend n =
     (case RunRepetition lib ebit d device backend n of
        None \<Rightarrow> None
      | Some (Inl e, n') \<Rightarrow> Some (Inl e, n')
      | Some (Inr resultsRaw, n') \<Rightarrow>
          Some (GetData_loop d (device \<noteq> ''ibmqx3'') resultsRaw ([], [], []), n'))"

definition GetData_errors ::
  "dict list \<Rightarrow> dict list \<Rightarrow> dict list \<Rightarrow> error + (rat list \<times> rat list \<times> rat list)" where
  "GetData_errors resultsFull resultsCode resultsSingle =
     (case CalculateError_float 0 resultsFull of Inl e \<Rightarrow> Inl e | Inr f0 \<Rightarrow>
      case CalculateError_float 0 resultsCode of Inl e \<Rightarrow> Inl e | Inr c0 \<Rightarrow>
      case CalculateError_float 0 resultsSingle of Inl e \<Rightarrow> Inl e | Inr s0 \<Rightarrow>
      case CalculateError_float 1 resultsFull of Inl e \<Rightarrow> Inl e | Inr f1 \<Rightarrow>
      case CalculateError_float 1 resultsCode of Inl e \<Rightarrow> Inl e | Inr c1 \<Rightarrow>
      case CalculateError_float 1 resultsSingle of Inl e \<Rightarrow> Inl e | Inr s1 \<Rightarrow>
        Inr ([f0, f1], [c0, c1], [s0, s1]))"

definition GetData ::
  "library \<Rightarrow> int \<Rightarrow> string \<Rightarrow> bool \<Rightarrow> backend \<Rightarrow> nat \<Rightarrow>
     ((error + (rat list \<times> rat list \<times> rat list)) \<times> nat) option" where
  "GetData lib d device verbose backend n =
     (case GetData_bit lib 0 d device backend n of
        None \<Rightarrow> None
      | Some (Inl e, n1) \<Rightarrow> Some (Inl e, n1)
      | Some (Inr (full0, code0, single0), n1) \<Rightarrow>
          (case GetData_bit lib 1 d device backend n1 of
             None \<Rightarrow> None
           | Some (Inl e, n2) \<Rightarrow> Some (Inl e, n2)
           | Some (Inr (full1, code1, single1), n2) \<Rightarrow>
               Some (GetData_errors [full0, full1] [code0, code1] [single0, single1], n2)))"

section \<open>The aggregation over the runs\<close>














section \<open>Notions used to state the properties\<close>

text \<open>
  \<open>prob_of results string\<close> is the probability a lookup table gives to a string: the stored
  value, and 0 for a string that has no entry.
\<close>

definition prob_of :: "dict \<Rightarrow> string \<Rightarrow> rat" where
  "prob_of results string = (case map_of results string of None \<Rightarrow> 0 | Some v \<Rightarrow> v)"

text \<open>What one item of the table of the encoded bit adds to the error, given the other table.\<close>

definition contribution :: "dict \<Rightarrow> string \<times> rat \<Rightarrow> rat" where
  "contribution other item =
     (case item of (string, right) \<Rightarrow>
        if prob_of other string > right then right
        else if prob_of other string = right then 0.5 * right
        else 0)"

definition nonneg :: "dict \<Rightarrow> bool" where
  "nonneg results = (\<forall>v \<in> set (map snd results). 0 \<le> v)"

text \<open>
  The sum of the values of a table as Python adds them up in a loop,
  \<^verbatim>\<open>s = 0\<close> and then \<^verbatim>\<open>s += v\<close> for each value in the order of the keys: every step is rounded.
\<close>

fun running_sum :: "rat \<Rightarrow> rat list \<Rightarrow> rat" where
  "running_sum s [] = s"
| "running_sum s (v # vs) = running_sum (round_double (s + v)) vs"

definition float_sum :: "dict \<Rightarrow> rat" where
  "float_sum results = running_sum 0 (map snd results)"

text \<open>
  A table all of whose values are binary64 numbers, as the values of a Python dictionary
  of floats are. And a table none of whose values is lost in part when it is halved:
  \<^verbatim>\<open>0.5*v\<close> is exact for 0 and from \<open>2\<^sup>-\<^sup>1\<^sup>0\<^sup>2\<^sup>1\<close> on, where the half is not subnormal.
\<close>

definition doubles :: "dict \<Rightarrow> bool" where
  "doubles results = (\<forall>v \<in> set (map snd results). is_double v)"

definition halves_exactly :: "rat \<Rightarrow> bool" where
  "halves_exactly v = (v = 0 \<or> 2 powi (- 1021) \<le> v)"

definition halvable :: "dict \<Rightarrow> bool" where
  "halvable results = (\<forall>v \<in> set (map snd results). halves_exactly v)"

text \<open>The lookup tables of the notebook's explanation of the decoder (\<open>d = 3\<close>, code qubits only).\<close>

definition result_example :: "dict list" where
  "result_example =
     [[(''000'', 0.669), (''001'', 0.1), (''010'', 0.1), (''100'', 0.1),
       (''110'', 0.01), (''101'', 0.01), (''011'', 0.01), (''111'', 0.001)],
      [(''000'', 0.001), (''001'', 0.01), (''010'', 0.01), (''100'', 0.01),
       (''110'', 0.1), (''101'', 0.1), (''011'', 0.1), (''111'', 0.669)]]"

text \<open>
  A table written with decimals as Python holds it: every decimal is read as the
  nearest binary64 number.
\<close>

definition as_floats :: "dict \<Rightarrow> dict" where
  "as_floats results = map (\<lambda>(string, v). (string, round_double v)) results"

text \<open>
  A table whose values are binary64 numbers with the exact sum 1, for the case of two
  equal tables. And two tables over the strings of three bits, of binary64 numbers with
  exact sums below 1, where every value of the second is larger than the value of the
  first at the same string.
\<close>

definition tie_table :: dict where
  "tie_table =
     [(''00'', 3 / 4), (''01'', 3 / 2 ^ 56), (''10'', 3 / 2 ^ 56), (''11'', 1 / 4 - 3 / 2 ^ 55)]"

definition right_table :: dict where
  "right_table =
     [(''000'', 1 - 6 / 2 ^ 53),
      (''001'', 1 / 2 ^ 54 + 1 / 2 ^ 60), (''010'', 1 / 2 ^ 54 + 1 / 2 ^ 60),
      (''011'', 1 / 2 ^ 54 + 1 / 2 ^ 60), (''100'', 1 / 2 ^ 54 + 1 / 2 ^ 60),
      (''101'', 1 / 2 ^ 54 + 1 / 2 ^ 60), (''110'', 1 / 2 ^ 54 + 1 / 2 ^ 60),
      (''111'', 1 / 2 ^ 53 + 1 / 2 ^ 60)]"

definition wrong_table :: dict where
  "wrong_table =
     [(''000'', 1 - 5 / 2 ^ 53),
      (''001'', 1 / 2 ^ 54 + 1 / 2 ^ 59), (''010'', 1 / 2 ^ 54 + 1 / 2 ^ 59),
      (''011'', 1 / 2 ^ 54 + 1 / 2 ^ 59), (''100'', 1 / 2 ^ 54 + 1 / 2 ^ 59),
      (''101'', 1 / 2 ^ 54 + 1 / 2 ^ 59), (''110'', 1 / 2 ^ 54 + 1 / 2 ^ 59),
      (''111'', 1 / 2 ^ 53 + 1 / 2 ^ 59)]"

text \<open>
  Three backends to run the model on. The first answers its first two jobs with a status
  report and every later job with counts of a \<open>d = 3\<close> code on a simulator; the second
  answers every job at once, with counts over two qubits; the third answers every job at
  once, with counts over sixteen qubits.
\<close>

definition retry_backend :: backend where
  "retry_backend n j =
     (if n < 2 then [(''status'', PyStr ''RUNNING'')]
      else [(''000000'', PyNum 4096), (''010101'', PyNum 2048), (''100000'', PyNum 2048)])"

definition two_qubit_backend :: backend where
  "two_qubit_backend n j = [(''00'', PyNum 6144), (''11'', PyNum 2048)]"

definition sixteen_qubit_backend :: backend where
  "sixteen_qubit_backend n j =
     [(''0000000000000000'', PyNum 6144), (''0000000000110000'', PyNum 2048)]"

text \<open>
  A gate call whose addresses are those of registers of \<open>num\<close> bits, with two different
  qubits for a \<^verbatim>\<open>cx\<close>. A library \<open>provides\<close> the registers of size \<open>num\<close> when it makes them
  and lets every such gate call return. \<open>strict_library\<close> is a library to run the model
  on: it makes the registers of a positive size and refuses every other gate call.
\<close>

fun well_addressed :: "int \<Rightarrow> gate \<Rightarrow> bool" where
  "well_addressed num (X a) = (0 \<le> a \<and> a < num)"
| "well_addressed num Barrier = True"
| "well_addressed num (U3 angle a) = (0 \<le> a \<and> a < num)"
| "well_addressed num (CX a b) = (0 \<le> a \<and> a < num \<and> 0 \<le> b \<and> b < num \<and> a \<noteq> b)"
| "well_addressed num (H a) = (0 \<le> a \<and> a < num)"
| "well_addressed num (Measure a b) = (0 \<le> a \<and> a < num \<and> 0 \<le> b \<and> b < num)"

definition provides :: "library \<Rightarrow> int \<Rightarrow> bool" where
  "provides lib num =
     (makes_registers lib num \<and> (\<forall>g. well_addressed num g \<longrightarrow> accepts lib num g))"

definition strict_library :: library where
  "strict_library = \<lparr>makes_registers = (\<lambda>num. 0 < num), accepts = well_addressed\<rparr>"

text \<open>
  A complete answer of the backend for registers of \<open>num\<close> bits: no key \<^verbatim>\<open>'status'\<close>, and
  under every key, a string of one character per qubit, a number.
\<close>

fun is_number :: "pyobj \<Rightarrow> bool" where
  "is_number (PyNum x) = True"
| "is_number (PyStr s) = False"
| "is_number PyType_str = False"

definition counts_of :: "int \<Rightarrow> response \<Rightarrow> bool" where
  "counts_of num results =
     (''status'' \<notin> set (keys results) \<and>
      (\<forall>item \<in> set results. int (length (fst item)) = num \<and> is_number (snd item)))"

text \<open>The circuit of \<open>RunRepetition\<close> for the bit 0 and \<open>d = 3\<close> on a simulator.\<close>

definition circuit_0_3 :: "gate list" where
  "circuit_0_3 =
     [Barrier, U3 0.05 0, U3 0.05 2, U3 0.05 4, U3 0.05 1, U3 0.05 3, U3 0.05 5, Barrier,
      CX 0 1, CX 2 3, Barrier,
      U3 0.05 0, U3 0.05 2, U3 0.05 4, U3 0.05 1, U3 0.05 3, U3 0.05 5, Barrier,
      CX 2 1, CX 4 3, Barrier,
      U3 0.05 0, U3 0.05 2, U3 0.05 4, U3 0.05 1, U3 0.05 3, U3 0.05 5, Barrier,
      Measure 0 0, Measure 1 1, Measure 2 2, Measure 3 3, Measure 4 4, Measure 5 5]"










section \<open>Properties of the dictionary operations\<close>

lemma keys_dict_set_list:
  "keys (dict_set results string v) =
     (if string \<in> set (keys results) then keys results else keys results @ [string])"
  by (induction results) (force simp: keys_def)+

lemma keys_dict_set: "set (keys (dict_set results string v)) = insert string (set (keys results))"
  by (auto simp: keys_dict_set_list)

lemma dict_ok_dict_set: "dict_ok results \<Longrightarrow> dict_ok (dict_set results string v)"
  by (simp add: dict_ok_def keys_dict_set_list)

lemma map_of_dict_set: "map_of (dict_set results string v) = (map_of results)(string \<mapsto> v)"
  by (induction results) (auto simp: fun_eq_iff)

lemma mass_dict_set_new:
  "string \<notin> set (keys results) \<Longrightarrow> mass (dict_set results string v) = mass results + v"
  by (induction results) (auto simp: mass_def keys_def)

lemma mass_dict_set_old:
  "map_of results string = Some old \<Longrightarrow>
   mass (dict_set results string v) = mass results - old + v"
  by (induction results) (auto simp: mass_def split: if_splits)

lemma map_of_in_keys: "string \<in> set (keys results) \<Longrightarrow> \<exists>v. map_of results string = Some v"
  by (induction results) (auto simp: keys_def)

lemma AddProbToResults_eq:
  "AddProbToResults prob string results =
     Inr (dict_set results string ((case map_of results string of None \<Rightarrow> 0 | Some v \<Rightarrow> v) + prob))"
proof (cases "string \<in> set (keys results)")
  case True
  then obtain v where "map_of results string = Some v"
    using map_of_in_keys by blast
  with True show ?thesis
    by (simp add: AddProbToResults_def dict_get_def)
next
  case False
  then have none: "map_of results string = None"
    by (simp add: keys_def map_of_eq_None_iff)
  have twice: "dict_set (dict_set results string 0) string prob = dict_set results string prob"
    by (induction results) auto
  from False none show ?thesis
    by (simp add: AddProbToResults_def dict_get_def map_of_dict_set twice)
qed

lemma mass_AddProbToResults:
  "AddProbToResults prob string results = Inr results' \<Longrightarrow> mass results' = mass results + prob"
proof (cases "map_of results string")
  case None
  assume "AddProbToResults prob string results = Inr results'"
  with None have r: "results' = dict_set results string prob"
    by (simp add: AddProbToResults_eq)
  from None have "string \<notin> set (keys results)"
    by (simp add: keys_def map_of_eq_None_iff)
  then show ?thesis
    by (simp add: r mass_dict_set_new)
next
  case (Some old)
  assume "AddProbToResults prob string results = Inr results'"
  with Some have r: "results' = dict_set results string (old + prob)"
    by (simp add: AddProbToResults_eq)
  show ?thesis
    by (simp add: r mass_dict_set_old [OF Some])
qed

section \<open>AddProbToResults touches one entry\<close>

text \<open>
  Claim C10. \<open>AddProbToResults prob string results\<close> never raises; in the dictionary it
  leaves, the entry at \<open>string\<close> is the previous value there (0 if there was none) plus
  \<open>prob\<close>, and every other key has the entry, or the absence of an entry, that it had
  before.
\<close>

theorem AddProbToResults_frame:
  "\<exists>results'. AddProbToResults prob string results = Inr results' \<and>
     map_of results' string =
       Some ((case map_of results string of None \<Rightarrow> 0 | Some v \<Rightarrow> v) + prob) \<and>
     (\<forall>k. k \<noteq> string \<longrightarrow> map_of results' k = map_of results k)"
  by (simp add: AddProbToResults_eq map_of_dict_set)

theorem AddProbToResults_frame_witness:
  "AddProbToResults 0.25 ''01'' [(''00'', 0.5), (''01'', 0.125)]
     = Inr [(''00'', 0.5), (''01'', 0.375)] \<and>
   ''00'' \<noteq> ''01'' \<and>
   map_of [(''00'', 0.5), (''01'', 0.375 :: rat)] ''00''
     = map_of [(''00'', 0.5), (''01'', 0.125)] ''00''"
  using AddProbToResults_frame [of "0.25" "''01''" "[(''00'', 0.5), (''01'', 0.125)]"]
  by (simp add: AddProbToResults_def dict_get_def keys_def)

section \<open>The worked example of the decoder\<close>

text \<open>
  Claim C1. On the two lookup tables of the notebook's \<open>d = 3\<close> example,
  \<open>CalculateError\<close> returns \<open>0.01 + 0.01 + 0.01 + 0.001 = 0.031\<close> for the encoded bit 0,
  and \<open>0.031\<close> for the encoded bit 1, in exact arithmetic.
\<close>

theorem CalculateError_example:
  "CalculateError 0 result_example = Inr (0.01 + 0.01 + 0.01 + 0.001) \<and>
   CalculateError 0 result_example = Inr 0.031 \<and>
   CalculateError 1 result_example = Inr 0.031"
  by (simp add: CalculateError_def result_example_def py_index_def keys_def dict_get_def
        add_error_def)

text \<open>
  In the arithmetic of Python the two tables hold the binary64 numbers nearest to their
  decimals, and the function returns the binary64 number nearest to \<open>0.031\<close>, which is
  what Python prints as \<^verbatim>\<open>0.031\<close>, for both bits.
\<close>

lemma CalculateError_float_example:
  "CalculateError_float 0 (map as_floats result_example) = Inr (round_double 0.031) \<and>
   CalculateError_float 1 (map as_floats result_example) = Inr (round_double 0.031)"
  by code_simp

section \<open>CalculateError as a sum of contributions\<close>

lemma wrong_is_prob_of:
  "(if string \<in> set (keys other) then dict_get other string else Inr 0)
     = Inr (prob_of other string)"
proof (cases "string \<in> set (keys other)")
  case True
  then obtain v where "map_of other string = Some v"
    using map_of_in_keys by blast
  with True show ?thesis
    by (simp add: prob_of_def dict_get_def)
next
  case False
  then have "map_of other string = None"
    by (simp add: keys_def map_of_eq_None_iff)
  with False show ?thesis
    by (simp add: prob_of_def)
qed

lemma add_error_contribution:
  "add_error error right (prob_of other string) = error + contribution other (string, right)"
  by (simp add: add_error_def contribution_def)

lemma other_table:
  "ebit = 0 \<or> ebit = 1 \<Longrightarrow>
   py_index [r0, r1] ((ebit + 1) mod 2) = Inr (if ebit = 0 then r1 else r0)"
  by (auto simp: py_index_def)

lemma CalculateError_loop_sum:
  assumes "ebit = 0 \<or> ebit = 1"
  shows "CalculateError_loop ebit [r0, r1] items acc =
           Inr (acc + sum_list (map (contribution (if ebit = 0 then r1 else r0)) items))"
proof (induction items arbitrary: acc)
  case Nil
  show ?case by simp
next
  case (Cons item rest)
  obtain string right where item: "item = (string, right)" by (cases item)
  show ?case
    unfolding item CalculateError_loop.simps other_table [OF assms] wrong_is_prob_of
    by (simp add: Cons.IH add_error_contribution)
qed

lemma CalculateError_0:
  "CalculateError 0 [r0, r1] = Inr (sum_list (map (contribution r1) r0))"
  using CalculateError_loop_sum [of 0 r0 r1 r0 0]
  by (simp add: CalculateError_def py_index_def)

lemma CalculateError_1:
  "CalculateError 1 [r0, r1] = Inr (sum_list (map (contribution r0) r1))"
  using CalculateError_loop_sum [of 1 r0 r1 r1 0]
  by (simp add: CalculateError_def py_index_def)

lemma prob_of_item:
  "dict_ok results \<Longrightarrow> (string, v) \<in> set results \<Longrightarrow> prob_of results string = v"
  by (simp add: dict_ok_def keys_def prob_of_def)

lemma separate_sum:
  assumes ok: "dict_ok r" and nn: "nonneg r"
    and disj: "\<forall>string. prob_of r string = 0 \<or> prob_of r' string = 0"
  shows "sum_list (map (contribution r') r) = 0"
proof -
  have "contribution r' item = 0" if "item \<in> set r" for item
  proof -
    obtain string v where item: "item = (string, v)" by (cases item)
    from that ok have p: "prob_of r string = v" by (simp add: item prob_of_item)
    from that nn have "0 \<le> v" by (force simp: item nonneg_def)
    with disj p show ?thesis
      by (auto simp: item contribution_def)
  qed
  then have "map (contribution r') r = map (\<lambda>item. 0) r"
    by (intro map_cong refl)
  then have "sum_list (map (contribution r') r) = sum_list (map (\<lambda>item. 0) r)"
    by (simp only:)
  then show ?thesis by simp
qed

text \<open>
  Claim C4. When the two lookup tables are distributions with disjoint support (no string
  has a nonzero probability in both), \<open>CalculateError\<close> returns exactly 0, for the encoded
  bit 0 and for the encoded bit 1.
\<close>

theorem CalculateError_disjoint_support:
  assumes "dict_ok r0" and "dict_ok r1" and "nonneg r0" and "nonneg r1"
    and "\<forall>string. prob_of r0 string = 0 \<or> prob_of r1 string = 0"
  shows "CalculateError 0 [r0, r1] = Inr 0 \<and> CalculateError 1 [r0, r1] = Inr 0"
  using separate_sum [of r0 r1] separate_sum [of r1 r0] assms
  by (auto simp: CalculateError_0 CalculateError_1)

theorem CalculateError_disjoint_support_witness:
  "dict_ok [(''000'', 0.75 :: rat), (''001'', 0.25), (''111'', 0)] \<and>
   dict_ok [(''111'', 1 :: rat)] \<and>
   nonneg [(''000'', 0.75), (''001'', 0.25), (''111'', 0)] \<and>
   nonneg [(''111'', 1)] \<and>
   (\<forall>string. prob_of [(''000'', 0.75), (''001'', 0.25), (''111'', 0)] string = 0 \<or>
              prob_of [(''111'', 1)] string = 0) \<and>
   CalculateError 0 [[(''000'', 0.75), (''001'', 0.25), (''111'', 0)], [(''111'', 1)]] = Inr 0 \<and>
   CalculateError 1 [[(''000'', 0.75), (''001'', 0.25), (''111'', 0)], [(''111'', 1)]] = Inr 0"
proof -
  have ok: "dict_ok [(''000'', 0.75 :: rat), (''001'', 0.25), (''111'', 0)]"
           "dict_ok [(''111'', 1 :: rat)]"
    by (simp_all add: dict_ok_def keys_def)
  have nn: "nonneg [(''000'', 0.75), (''001'', 0.25), (''111'', 0)]" "nonneg [(''111'', 1)]"
    by (simp_all add: nonneg_def)
  have disj: "\<forall>string. prob_of [(''000'', 0.75), (''001'', 0.25), (''111'', 0)] string = 0 \<or>
                        prob_of [(''111'', 1)] string = 0"
    by (simp add: prob_of_def)
  from CalculateError_disjoint_support [OF ok nn disj] ok nn disj show ?thesis
    by simp
qed

section \<open>Rounding to the nearest binary64 number\<close>

text \<open>
  The facts about \<open>round_double\<close> that the decoder needs: what it gives is a binary64
  number, it keeps the order of the non-negative numbers, and from \<open>2\<^sup>-\<^sup>1\<^sup>0\<^sup>2\<^sup>1\<close> on it
  commutes with halving.
\<close>

lemma round_even_of_int: "round_even (of_int n) = n"
  by (simp add: round_even_def)

lemma round_even_mono: "y1 \<le> y2 \<Longrightarrow> round_even y1 \<le> round_even y2"
proof -
  assume le: "y1 \<le> y2"
  then have f: "\<lfloor>y1\<rfloor> \<le> \<lfloor>y2\<rfloor>" by (rule floor_mono)
  show ?thesis
  proof (cases "\<lfloor>y1\<rfloor> = \<lfloor>y2\<rfloor>")
    case True
    with le show ?thesis
      by (auto simp: round_even_def Let_def)
  next
    case False
    with f have "\<lfloor>y1\<rfloor> + 1 \<le> \<lfloor>y2\<rfloor>" by simp
    moreover have "round_even y1 \<le> \<lfloor>y1\<rfloor> + 1" "\<lfloor>y2\<rfloor> \<le> round_even y2"
      by (auto simp: round_even_def Let_def)
    ultimately show ?thesis by simp
  qed
qed

lemma pow2_pos: "0 < (2 :: rat) powi k"
  by (simp add: zero_less_power_int)

lemma pow2_less: "k < l \<Longrightarrow> (2 :: rat) powi k < 2 powi l"
  by (rule power_int_strict_increasing) simp_all

lemma pow2_le: "k \<le> l \<Longrightarrow> (2 :: rat) powi k \<le> 2 powi l"
  by (rule power_int_increasing) simp_all

lemma pow2_less_D: "(2 :: rat) powi k < 2 powi l \<Longrightarrow> k < l"
  using pow2_le [of l k] by (cases "k < l") simp_all

lemma pow2_of_int: "0 \<le> k \<Longrightarrow> (of_int (2 ^ nat k) :: rat) = 2 powi k"
  by (simp add: power_int_def)

lemma pow2_nat: "0 \<le> k \<Longrightarrow> (2 :: rat) powi k = 2 ^ nat k"
  by (simp add: power_int_def)

lemma pow2_add: "(2 :: rat) powi a * 2 powi b = 2 powi (a + b)"
  by (simp add: power_int_add)

lemma pow2_shift: "of_int (2 ^ n) * (2 :: rat) powi k = 2 powi (int n + k)"
proof -
  have "(of_int (2 ^ n) :: rat) = 2 powi int n"
    by (simp add: power_int_of_nat)
  then show ?thesis
    by (simp only: pow2_add)
qed

lemma pow2_le_of_int: "0 \<le> k \<Longrightarrow> 2 ^ nat k \<le> p \<Longrightarrow> (2 :: rat) powi k \<le> of_int p"
proof -
  assume k: "0 \<le> k" and "2 ^ nat k \<le> p"
  then have "(of_int (2 ^ nat k) :: rat) \<le> of_int p" by (simp only: of_int_le_iff)
  then show ?thesis by (simp only: pow2_of_int [OF k])
qed

lemma of_int_less_pow2: "0 \<le> k \<Longrightarrow> p < 2 ^ nat k \<Longrightarrow> (of_int p :: rat) < 2 powi k"
proof -
  assume k: "0 \<le> k" and "p < 2 ^ nat k"
  then have "(of_int p :: rat) < of_int (2 ^ nat k)" by (simp only: of_int_less_iff)
  then show ?thesis by (simp only: pow2_of_int [OF k])
qed

lemma expo_bounds:
  assumes "0 < x"
  shows "2 powi expo x \<le> x \<and> x < 2 powi (expo x + 1)"
proof -
  obtain p q where pq: "quotient_of x = (p, q)" by (cases "quotient_of x")
  then have q: "0 < q" and x: "x = of_int p / of_int q"
    by (simp_all add: quotient_of_denom_pos quotient_of_div)
  from assms q x have p: "0 < p"
    by (simp add: zero_less_divide_iff)
  let ?bp = "bitlen p" and ?bq = "bitlen q"
  from bitlen_bounds [OF p] bitlen_bounds [OF q]
  have ip: "2 ^ nat (?bp - 1) \<le> p" "p < 2 ^ nat ?bp"
    and iq: "2 ^ nat (?bq - 1) \<le> q" "q < 2 ^ nat ?bq"
    by simp_all
  have pos: "1 \<le> ?bp" "1 \<le> ?bq"
    using p q bitlen_eq_zero_iff [of p] bitlen_eq_zero_iff [of q] bitlen_nonneg [of p]
      bitlen_nonneg [of q] by linarith+
  have rp: "(2 :: rat) powi (?bp - 1) \<le> of_int p" "(of_int p :: rat) < 2 powi ?bp"
   and rq: "(2 :: rat) powi (?bq - 1) \<le> of_int q" "(of_int q :: rat) < 2 powi ?bq"
    using ip iq pos by (simp_all add: pow2_le_of_int of_int_less_pow2)
  let ?e = "?bp - ?bq"
  have upper: "x < 2 powi (?e + 1)"
  proof -
    have "of_int p / of_int q < (2 :: rat) powi ?bp / 2 powi (?bq - 1)"
      using p rp(2) pow2_pos rq(1) by (intro frac_less) simp_all
    also have "\<dots> = 2 powi (?bp - (?bq - 1))"
      by (simp add: power_int_diff)
    finally show ?thesis by (simp add: x algebra_simps)
  qed
  have lower: "2 powi (?e - 1) < x"
  proof -
    have "(2 :: rat) powi (?bp - 1) / 2 powi ?bq < of_int p / of_int q"
      using q rp(1) pow2_pos rq(2) by (intro frac_less2) simp_all
    moreover have "(2 :: rat) powi (?bp - 1) / 2 powi ?bq = 2 powi (?bp - 1 - ?bq)"
      by (simp add: power_int_diff)
    ultimately show ?thesis by (simp add: x algebra_simps)
  qed
  show ?thesis
  proof (cases "2 powi ?e \<le> x")
    case True
    then have "expo x = ?e" by (simp add: expo_def pq Let_def)
    with True upper show ?thesis by simp
  next
    case False
    then have "expo x = ?e - 1" by (simp add: expo_def pq Let_def)
    with False lower show ?thesis by simp
  qed
qed

lemma expo_unique:
  assumes "0 < x" and "2 powi e \<le> x" and "x < 2 powi (e + 1)"
  shows "expo x = e"
proof -
  from expo_bounds [OF assms(1)] assms(2,3)
  have a: "(2 :: rat) powi expo x < 2 powi (e + 1)" and b: "(2 :: rat) powi e < 2 powi (expo x + 1)"
    by simp_all
  from a have "expo x < e + 1" by (rule pow2_less_D)
  moreover from b have "e < expo x + 1" by (rule pow2_less_D)
  ultimately show ?thesis by simp
qed

lemma expo_mono:
  assumes "0 < x" and "x \<le> y"
  shows "expo x \<le> expo y"
proof -
  from assms have "0 < y" by simp
  from expo_bounds [OF assms(1)] expo_bounds [OF this] assms(2)
  have "(2 :: rat) powi expo x < 2 powi (expo y + 1)" by simp
  then have "expo x < expo y + 1" by (rule pow2_less_D)
  then show ?thesis by simp
qed


lemma grid_pos: "0 < x \<Longrightarrow> grid x = max (expo x - 52) (- 1074)"
  by (simp add: grid_def)

lemma round_double_pos:
  "0 < x \<Longrightarrow> round_double x = 2 powi grid x * of_int (round_even (x / 2 powi grid x))"
  by (simp add: round_double_def)

lemma round_double_0: "round_double 0 = 0"
  by (simp add: round_double_def)

text \<open>A positive multiple of a power of two that is on the grid of its binade is a double.\<close>

lemma representable:
  assumes "0 < x" and "x = of_int m * 2 powi j" and "grid x \<le> j"
  shows "round_double x = x"
proof -
  define g where "g = grid x"
  define k where "k = nat (j - g)"
  have "j = int k + g" using assms(3) by (simp add: k_def g_def)
  then have "(2 :: rat) powi j = 2 powi (int k + g)"
    by (rule arg_cong)
  also have "\<dots> = of_int (2 ^ k) * 2 powi g"
    by (rule pow2_shift [symmetric])
  finally have x: "x = of_int (m * 2 ^ k) * 2 powi g"
    by (simp add: assms(2))
  have q: "(2 :: rat) powi g \<noteq> 0" using pow2_pos [of g] by simp
  have "x / 2 powi g = of_int (m * 2 ^ k)"
    by (subst x) (simp only: nonzero_mult_div_cancel_right [OF q])
  then have "round_even (x / 2 powi g) = m * 2 ^ k"
    by (simp only: round_even_of_int)
  then have "round_double x = 2 powi g * of_int (m * 2 ^ k)"
    using assms(1) by (simp only: round_double_pos g_def)
  also have "\<dots> = of_int (m * 2 ^ k) * 2 powi g"
    by (rule mult.commute)
  also have "\<dots> = x"
    by (rule x [symmetric])
  finally show ?thesis .
qed

text \<open>Rounding stays between the grid points around the argument.\<close>

lemma grid_bracket:
  assumes "0 < x" and "of_int l * 2 powi grid x \<le> x" and "x \<le> of_int h * 2 powi grid x"
  shows "of_int l * 2 powi grid x \<le> round_double x \<and> round_double x \<le> of_int h * 2 powi grid x"
proof -
  let ?q = "(2 :: rat) powi grid x"
  have q: "0 < ?q" by (rule pow2_pos)
  from assms(2,3) q have "of_int l \<le> x / ?q" "x / ?q \<le> of_int h"
    by (simp_all add: field_simps)
  then have "round_even (of_int l) \<le> round_even (x / ?q)" "round_even (x / ?q) \<le> round_even (of_int h)"
    by (simp_all only: round_even_mono)
  then have "l \<le> round_even (x / ?q)" "round_even (x / ?q) \<le> h"
    by (simp_all only: round_even_of_int)
  then have "(of_int l :: rat) \<le> of_int (round_even (x / ?q))"
            "(of_int (round_even (x / ?q)) :: rat) \<le> of_int h"
    by (simp_all only: of_int_le_iff)
  with q show ?thesis
    by (simp add: round_double_pos [OF assms(1)] mult.commute)
qed

text \<open>The binade of a positive number, or the subnormal range, holds its rounding.\<close>

lemma binade_bracket:
  assumes "0 < x" and "- 1022 \<le> expo x"
  shows "2 powi expo x \<le> round_double x \<and> round_double x \<le> 2 powi (expo x + 1)"
proof -
  from assms have g: "grid x = expo x - 52" by (simp add: grid_pos)
  have "int 52 + (expo x - 52) = expo x" by simp
  then have lo: "of_int (2 ^ 52) * (2 :: rat) powi grid x = 2 powi expo x"
    by (simp only: g pow2_shift)
  have "int 53 + (expo x - 52) = expo x + 1" by simp
  then have hi: "of_int (2 ^ 53) * (2 :: rat) powi grid x = 2 powi (expo x + 1)"
    by (simp only: g pow2_shift)
  from expo_bounds [OF assms(1)] have "2 powi expo x \<le> x" "x \<le> 2 powi (expo x + 1)"
    by simp_all
  with grid_bracket [OF assms(1), of "2 ^ 52" "2 ^ 53"] show ?thesis
    by (simp only: lo hi)
qed

lemma subnormal_bracket:
  assumes "0 < x" and "expo x < - 1022"
  shows "0 \<le> round_double x \<and> round_double x \<le> 2 powi (- 1022)"
proof -
  from assms have g: "grid x = - 1074" by (simp add: grid_pos)
  have "int 52 + (- 1074) = - 1022" by simp
  then have hi: "of_int (2 ^ 52) * (2 :: rat) powi grid x = 2 powi (- 1022)"
    by (simp only: g pow2_shift)
  from expo_bounds [OF assms(1)] assms(2) have "x < 2 powi (expo x + 1)" "expo x + 1 \<le> - 1022"
    by simp_all
  then have "x \<le> 2 powi (- 1022)"
    using pow2_le [of "expo x + 1" "- 1022"] by simp
  with grid_bracket [OF assms(1), of 0 "2 ^ 52"] assms(1) show ?thesis
    by (simp only: hi) simp
qed


lemma round_double_nonneg: "0 \<le> x \<Longrightarrow> 0 \<le> round_double x"
proof (cases "x = 0")
  case True
  then show ?thesis by (simp add: round_double_0)
next
  case False
  assume "0 \<le> x"
  with False have x: "0 < x" by simp
  show ?thesis
  proof (cases "- 1022 \<le> expo x")
    case True
    from binade_bracket [OF x True] have "2 powi expo x \<le> round_double x" by (rule conjunct1)
    with pow2_pos [of "expo x"] show ?thesis by (rule less_imp_le [OF less_le_trans])
  next
    case False
    then have "expo x < - 1022" by simp
    from subnormal_bracket [OF x this] show ?thesis by (rule conjunct1)
  qed
qed

text \<open>Rounding is monotone on the non-negative numbers.\<close>

lemma round_double_mono:
  assumes "0 \<le> x" and "x \<le> y"
  shows "round_double x \<le> round_double y"
proof (cases "x = 0")
  case True
  with assms round_double_nonneg [of y] show ?thesis
    by (simp add: round_double_0)
next
  case False
  with assms have x: "0 < x" and y: "0 < y" by simp_all
  have e: "expo x \<le> expo y" using x assms(2) by (rule expo_mono)
  show ?thesis
  proof (cases "grid x = grid y")
    case True
    let ?q = "(2 :: rat) powi grid y"
    have "x / ?q \<le> y / ?q"
      using assms(2) pow2_pos [of "grid y"] by (simp add: divide_right_mono)
    then have "round_even (x / ?q) \<le> round_even (y / ?q)"
      by (rule round_even_mono)
    then have "(of_int (round_even (x / ?q)) :: rat) \<le> of_int (round_even (y / ?q))"
      by (simp only: of_int_le_iff)
    then show ?thesis
      using pow2_pos [of "grid y"]
      by (simp add: round_double_pos [OF x] round_double_pos [OF y] True)
  next
    case False
    with e x y have big: "- 1022 < expo y" and less: "expo x < expo y"
      by (auto simp: grid_pos max_def split: if_splits)
    from big have lower: "2 powi expo y \<le> round_double y"
      using binade_bracket [OF y] by simp
    have "round_double x \<le> 2 powi expo y"
    proof (cases "- 1022 \<le> expo x")
      case True
      from binade_bracket [OF x True] have "round_double x \<le> 2 powi (expo x + 1)" by simp
      also have "(2 :: rat) powi (expo x + 1) \<le> 2 powi expo y"
        using less by (intro pow2_le) simp
      finally show ?thesis .
    next
      case False
      then have "expo x < - 1022" by simp
      from subnormal_bracket [OF x this] have "round_double x \<le> 2 powi (- 1022)" by simp
      also have "(2 :: rat) powi (- 1022) \<le> 2 powi expo y"
        using big by (intro pow2_le) simp
      finally show ?thesis .
    qed
    with lower show ?thesis by simp
  qed
qed

lemma expo_pow2: "expo (2 powi k) = k"
  by (rule expo_unique) (simp_all add: pow2_pos pow2_less)

lemma is_double_pow2: "- 1074 \<le> k \<Longrightarrow> is_double (2 powi k)"
proof -
  assume k: "- 1074 \<le> k"
  have "grid (2 powi k) \<le> k"
    using k by (simp add: grid_pos pow2_pos expo_pow2)
  with representable [of "2 powi k" 1 k] show ?thesis
    by (simp add: is_double_def pow2_pos)
qed

text \<open>What rounding gives is a double: rounding it again changes nothing.\<close>

lemma round_double_idem:
  assumes "0 \<le> x"
  shows "round_double (round_double x) = round_double x"
proof (cases "x = 0")
  case True
  then show ?thesis by (simp add: round_double_0)
next
  case False
  with assms have x: "0 < x" by simp
  define z where "z = round_double x"
  define n where "n = round_even (x / 2 powi grid x)"
  have zn: "z = of_int n * 2 powi grid x"
    by (simp add: z_def n_def round_double_pos [OF x] mult.commute)
  show ?thesis
  proof (cases "z = 0")
    case True
    then show ?thesis by (simp add: z_def [symmetric] round_double_0)
  next
    case False
    with round_double_nonneg [OF assms] have z: "0 < z" by (simp add: z_def)
    have "round_double z = z"
    proof (cases "- 1022 \<le> expo x")
      case True
      from binade_bracket [OF x True] have b: "2 powi expo x \<le> z" "z \<le> 2 powi (expo x + 1)"
        by (simp_all add: z_def)
      show ?thesis
      proof (cases "z = 2 powi (expo x + 1)")
        case True
        have "- 1074 \<le> expo x + 1" using \<open>- 1022 \<le> expo x\<close> by simp
        from is_double_pow2 [OF this]
        have "round_double (2 powi (expo x + 1)) = 2 powi (expo x + 1)" by (simp only: is_double_def)
        then show ?thesis by (simp only: True)
      next
        case False
        with b have "z < 2 powi (expo x + 1)" by simp
        with b(1) z have "expo z = expo x" by (intro expo_unique)
        then have "grid z = grid x" using x z by (simp add: grid_pos)
        with representable [OF z zn] show ?thesis by simp
      qed
    next
      case False
      then have sub: "expo x < - 1022" by simp
      from subnormal_bracket [OF x sub] have b: "z \<le> 2 powi (- 1022)"
        by (simp add: z_def)
      from sub x have gx: "grid x = - 1074" by (simp add: grid_pos)
      show ?thesis
      proof (cases "z = 2 powi (- 1022)")
        case True
        have "is_double (2 powi (- 1022))" by (rule is_double_pow2) simp
        then have "round_double (2 powi (- 1022)) = 2 powi (- 1022)" by (simp only: is_double_def)
        then show ?thesis by (simp only: True)
      next
        case False
        with b have "z < 2 powi (- 1022)" by simp
        with expo_bounds [OF z] have "(2 :: rat) powi expo z < 2 powi (- 1022)" by simp
        then have "expo z < - 1022" by (rule pow2_less_D)
        then have "grid z = - 1074" using z by (simp add: grid_pos)
        with representable [OF z zn] gx show ?thesis by simp
      qed
    qed
    then show ?thesis by (simp add: z_def)
  qed
qed

text \<open>Halving commutes with rounding from \<open>2\<^sup>-\<^sup>1\<^sup>0\<^sup>2\<^sup>1\<close> on.\<close>

lemma round_double_half:
  assumes "2 powi (- 1021) \<le> x"
  shows "round_double (x / 2) = round_double x / 2"
proof -
  from assms pow2_pos [of "- 1021"] have x: "0 < x" by simp
  then have h: "0 < x / 2" by simp
  from expo_bounds [OF x] assms have "(2 :: rat) powi (- 1021) < 2 powi (expo x + 1)" by simp
  then have "- 1021 < expo x + 1" by (rule pow2_less_D)
  then have e: "- 1021 \<le> expo x" by simp
  have "expo (x / 2) = expo x - 1"
  proof (rule expo_unique [OF h])
    have two: "(2 :: rat) powi (expo x - 1) * 2 = 2 powi expo x"
      by (simp add: power_int_minus_mult)
    from expo_bounds [OF x] two show "2 powi (expo x - 1) \<le> x / 2" by simp
    from expo_bounds [OF x] show "x / 2 < 2 powi (expo x - 1 + 1)"
      by (simp add: power_int_add)
  qed
  with e x h have g: "grid x = expo x - 52" "grid (x / 2) = grid x - 1"
    by (simp_all add: grid_pos)
  have q: "(2 :: rat) powi (grid x - 1) = 2 powi grid x / 2"
    by (simp add: power_int_diff)
  have "x / 2 / (2 powi grid x / 2) = x / 2 powi grid x"
    by simp
  then show ?thesis
    by (simp add: round_double_pos [OF x] round_double_pos [OF h] g(2) q)
qed

section \<open>CalculateError in the arithmetic of Python: ties and bounds\<close>

lemma is_double_0: "is_double 0"
  by (simp add: is_double_def round_double_0)

lemma is_double_round: "0 \<le> x \<Longrightarrow> is_double (round_double x)"
  by (simp add: is_double_def round_double_idem)

lemma halves_exactly_nonneg: "halves_exactly x \<Longrightarrow> 0 \<le> x"
  using pow2_pos [of "- 1021"] by (auto simp: halves_exactly_def)

lemma round_double_halves:
  assumes "halves_exactly x"
  shows "round_double (x / 2) = round_double x / 2"
proof (cases "x = 0")
  case True
  then show ?thesis by (simp add: round_double_0)
next
  case False
  with assms have "2 powi (- 1021) \<le> x" by (simp add: halves_exactly_def)
  then show ?thesis by (rule round_double_half)
qed

lemma halves_exactly_add:
  assumes "halves_exactly s" and "halves_exactly v"
  shows "halves_exactly (s + v)"
proof (cases "s = 0 \<and> v = 0")
  case True
  then show ?thesis by (simp add: halves_exactly_def)
next
  case False
  from assms have "0 \<le> s" "0 \<le> v" by (simp_all add: halves_exactly_nonneg)
  with False assms have "2 powi (- 1021) \<le> s + v"
    unfolding halves_exactly_def by (elim disjE) simp_all
  then show ?thesis by (simp add: halves_exactly_def)
qed

lemma halves_exactly_round:
  assumes "halves_exactly x"
  shows "halves_exactly (round_double x)"
proof (cases "x = 0")
  case True
  then show ?thesis by (simp add: round_double_0 halves_exactly_def)
next
  case False
  with assms have low: "2 powi (- 1021) \<le> x" by (simp add: halves_exactly_def)
  have "is_double (2 powi (- 1021))" by (rule is_double_pow2) simp
  then have "round_double (2 powi (- 1021)) = 2 powi (- 1021)" by (simp only: is_double_def)
  moreover have "round_double (2 powi (- 1021)) \<le> round_double x"
    using _ low by (rule round_double_mono) (rule less_imp_le [OF pow2_pos])
  ultimately have "2 powi (- 1021) \<le> round_double x" by (simp only:)
  then show ?thesis unfolding halves_exactly_def by (rule disjI2)
qed

text \<open>At a tie the accumulator stays half of the running sum.\<close>

lemma tie_step:
  assumes "is_double v" and "halves_exactly v" and "halves_exactly s"
  shows "add_error_float (s / 2) v v = round_double (s + v) / 2"
proof -
  have "round_double (0.5 * v) = round_double (v / 2)" by simp
  also have "\<dots> = round_double v / 2" using assms(2) by (rule round_double_halves)
  also have "\<dots> = v / 2" using assms(1) by (simp only: is_double_def)
  finally have half: "round_double (0.5 * v) = v / 2" .
  have "s / 2 + v / 2 = (s + v) / 2" by (simp add: add_divide_distrib)
  moreover have "round_double ((s + v) / 2) = round_double (s + v) / 2"
    using halves_exactly_add [OF assms(3) assms(2)] by (rule round_double_halves)
  ultimately show ?thesis
    by (simp only: add_error_float_def half less_irrefl if_False if_True refl)
qed

lemma tie_loop:
  assumes bit: "ebit = 0 \<or> ebit = 1"
  shows "\<forall>item \<in> set items. prob_of (if ebit = 0 then r1 else r0) (fst item) = snd item \<and>
            is_double (snd item) \<and> halves_exactly (snd item) \<Longrightarrow>
         is_double s \<Longrightarrow> halves_exactly s \<Longrightarrow>
         CalculateError_float_loop ebit [r0, r1] items (s / 2)
           = Inr (running_sum s (map snd items) / 2)"
proof (induction items arbitrary: s)
  case Nil
  show ?case by simp
next
  case (Cons item rest)
  obtain string v where item: "item = (string, v)" by (cases item)
  from Cons.prems(1) have v: "prob_of (if ebit = 0 then r1 else r0) string = v"
      "is_double v" "halves_exactly v"
    and rest: "\<forall>item \<in> set rest. prob_of (if ebit = 0 then r1 else r0) (fst item) = snd item \<and>
            is_double (snd item) \<and> halves_exactly (snd item)"
    by (simp_all add: item)
  let ?s = "round_double (s + v)"
  have sum: "halves_exactly (s + v)"
    using Cons.prems(3) v(3) by (rule halves_exactly_add)
  have d: "is_double ?s"
    using halves_exactly_nonneg [OF sum] by (rule is_double_round)
  have h: "halves_exactly ?s"
    using sum by (rule halves_exactly_round)
  have "CalculateError_float_loop ebit [r0, r1] (item # rest) (s / 2)
          = CalculateError_float_loop ebit [r0, r1] rest (add_error_float (s / 2) v v)"
    unfolding item CalculateError_float_loop.simps other_table [OF bit] wrong_is_prob_of
    by (simp add: v(1))
  also have "\<dots> = CalculateError_float_loop ebit [r0, r1] rest (?s / 2)"
    by (simp only: tie_step [OF v(2) v(3) Cons.prems(3)])
  also have "\<dots> = Inr (running_sum ?s (map snd rest) / 2)"
    using rest d h by (rule Cons.IH)
  finally show ?case by (simp add: item)
qed

lemma same_mapping_ties:
  assumes "dict_ok r" and "map_of r = map_of r'" and "item \<in> set r"
  shows "prob_of r' (fst item) = snd item"
proof -
  obtain string v where item: "item = (string, v)" by (cases item)
  from assms(1,3) have "prob_of r string = v" by (simp add: item prob_of_item)
  with assms(2) show ?thesis by (simp add: item prob_of_def)
qed

lemma CalculateError_float_tie:
  assumes ok: "dict_ok r0" "dict_ok r1" and same: "map_of r0 = map_of r1"
    and d: "doubles r0" "doubles r1" and n: "halvable r0" "halvable r1"
  shows "CalculateError_float 0 [r0, r1] = Inr (float_sum r0 / 2)"
    and "CalculateError_float 1 [r0, r1] = Inr (float_sum r1 / 2)"
proof -
  have zero: "is_double 0" "halves_exactly 0"
    by (simp_all add: is_double_0 halves_exactly_def)
  have "\<forall>item \<in> set r0. prob_of (if (0::int) = 0 then r1 else r0) (fst item) = snd item \<and>
            is_double (snd item) \<and> halves_exactly (snd item)"
    using same_mapping_ties [OF ok(1) same] d(1) n(1) by (simp add: doubles_def halvable_def)
  from tie_loop [where ebit = 0 and items = r0 and s = 0, OF _ this zero]
  show "CalculateError_float 0 [r0, r1] = Inr (float_sum r0 / 2)"
    by (simp add: CalculateError_float_def py_index_def float_sum_def)
  have "\<forall>item \<in> set r1. prob_of (if (1::int) = 0 then r1 else r0) (fst item) = snd item \<and>
            is_double (snd item) \<and> halves_exactly (snd item)"
    using same_mapping_ties [OF ok(2) same [symmetric]] d(2) n(2)
    by (simp add: doubles_def halvable_def)
  from tie_loop [where ebit = 1 and items = r1 and s = 0, OF _ this zero]
  show "CalculateError_float 1 [r0, r1] = Inr (float_sum r1 / 2)"
    by (simp add: CalculateError_float_def py_index_def float_sum_def)
qed

text \<open>The accumulator never passes the running sum of the values met so far.\<close>

lemma add_error_float_bounds:
  assumes "0 \<le> v" and "is_double v" and "0 \<le> e" and "e \<le> s" and "is_double s"
  shows "0 \<le> add_error_float e v w \<and> add_error_float e v w \<le> round_double (s + v)"
proof -
  have a: "round_double (e + v) \<le> round_double (s + v)"
    using assms by (intro round_double_mono) simp_all
  have "round_double (0.5 * v) \<le> round_double v"
    using assms(1) by (intro round_double_mono) simp_all
  then have half: "round_double (0.5 * v) \<le> v"
    using assms(2) by (simp only: is_double_def)
  have hn: "0 \<le> round_double (0.5 * v)"
    using assms(1) by (intro round_double_nonneg) simp
  have b: "round_double (e + round_double (0.5 * v)) \<le> round_double (s + v)"
    using assms(3,4) half hn by (intro round_double_mono) simp_all
  have "round_double s \<le> round_double (s + v)"
    using assms(1,3,4) by (intro round_double_mono) simp_all
  then have "s \<le> round_double (s + v)"
    using assms(5) by (simp only: is_double_def)
  with assms(4) have c: "e \<le> round_double (s + v)" by simp
  have "0 \<le> round_double (e + v)" "0 \<le> round_double (e + round_double (0.5 * v))"
    using assms(1,3) hn by (simp_all add: round_double_nonneg)
  with a b c assms(3) show ?thesis
    by (simp add: add_error_float_def)
qed

lemma bound_loop:
  assumes bit: "ebit = 0 \<or> ebit = 1"
  shows "\<forall>v \<in> set (map snd items). 0 \<le> v \<and> is_double v \<Longrightarrow>
         0 \<le> e \<Longrightarrow> e \<le> s \<Longrightarrow> is_double s \<Longrightarrow>
         \<exists>e'. CalculateError_float_loop ebit [r0, r1] items e = Inr e' \<and>
              0 \<le> e' \<and> e' \<le> running_sum s (map snd items)"
proof (induction items arbitrary: e s)
  case Nil
  then show ?case by simp
next
  case (Cons item rest)
  obtain string v where item: "item = (string, v)" by (cases item)
  from Cons.prems(1) have v: "0 \<le> v" "is_double v"
    and rest: "\<forall>v \<in> set (map snd rest). 0 \<le> v \<and> is_double v"
    by (simp_all add: item)
  let ?w = "prob_of (if ebit = 0 then r1 else r0) string"
  let ?e = "add_error_float e v ?w" and ?s = "round_double (s + v)"
  from add_error_float_bounds [OF v Cons.prems(2,3,4), of ?w]
  have e: "0 \<le> ?e" "?e \<le> ?s" by simp_all
  have d: "is_double ?s"
    using v(1) Cons.prems(2,3) by (intro is_double_round) simp
  have "CalculateError_float_loop ebit [r0, r1] (item # rest) e
          = CalculateError_float_loop ebit [r0, r1] rest ?e"
    unfolding item CalculateError_float_loop.simps other_table [OF bit] wrong_is_prob_of
    by simp
  with Cons.IH [OF rest e d] show ?case by (simp add: item)
qed

lemma CalculateError_float_bounds:
  assumes "nonneg r0" "doubles r0" "nonneg r1" "doubles r1"
  shows "\<exists>e. CalculateError_float 0 [r0, r1] = Inr e \<and> 0 \<le> e \<and> e \<le> float_sum r0"
    and "\<exists>e. CalculateError_float 1 [r0, r1] = Inr e \<and> 0 \<le> e \<and> e \<le> float_sum r1"
proof -
  have "\<forall>v \<in> set (map snd r0). 0 \<le> v \<and> is_double v"
    using assms by (simp add: nonneg_def doubles_def)
  from bound_loop [where ebit = 0 and items = r0 and s = 0 and e = 0,
         OF _ this order_refl order_refl is_double_0]
  show "\<exists>e. CalculateError_float 0 [r0, r1] = Inr e \<and> 0 \<le> e \<and> e \<le> float_sum r0"
    by (simp add: CalculateError_float_def py_index_def float_sum_def)
  have "\<forall>v \<in> set (map snd r1). 0 \<le> v \<and> is_double v"
    using assms by (simp add: nonneg_def doubles_def)
  from bound_loop [where ebit = 1 and items = r1 and s = 0 and e = 0,
         OF _ this order_refl order_refl is_double_0]
  show "\<exists>e. CalculateError_float 1 [r0, r1] = Inr e \<and> 0 \<le> e \<and> e \<le> float_sum r1"
    by (simp add: CalculateError_float_def py_index_def float_sum_def)
qed

text \<open>The running sum of non-negative doubles never goes down.\<close>

lemma running_sum_grows:
  "\<forall>v \<in> set vs. 0 \<le> v \<Longrightarrow> 0 \<le> s \<Longrightarrow> is_double s \<Longrightarrow> s \<le> running_sum s vs"
proof (induction vs arbitrary: s)
  case Nil
  show ?case by simp
next
  case (Cons v vs)
  then have v: "0 \<le> v" and rest: "\<forall>v \<in> set vs. 0 \<le> v" by simp_all
  have "round_double s \<le> round_double (s + v)"
    using Cons.prems(2) v by (intro round_double_mono) simp_all
  then have up: "s \<le> round_double (s + v)"
    using Cons.prems(3) by (simp only: is_double_def)
  have "round_double (s + v) \<le> running_sum (round_double (s + v)) vs"
    using rest
  proof (rule Cons.IH)
    from up Cons.prems(2) show "0 \<le> round_double (s + v)" by simp
    from Cons.prems(2) v show "is_double (round_double (s + v))"
      by (intro is_double_round) simp
  qed
  with up show ?case by simp
qed

lemma CalculateError_float_returns:
  assumes "ebit = 0 \<or> ebit = 1"
  shows "\<exists>e. CalculateError_float ebit [r0, r1] = Inr e"
proof -
  have loop: "\<exists>e'. CalculateError_float_loop ebit [r0, r1] items e = Inr e'" for items e
  proof (induction items arbitrary: e)
    case Nil
    show ?case by simp
  next
    case (Cons item rest)
    obtain string v where item: "item = (string, v)" by (cases item)
    show ?case
      unfolding item CalculateError_float_loop.simps other_table [OF assms] wrong_is_prob_of
      by (simp add: Cons.IH)
  qed
  from assms loop show ?thesis
    by (auto simp: CalculateError_float_def py_index_def)
qed

text \<open>
  With disjoint support nothing is ever rounded, and the function in the arithmetic of
  Python returns 0 as the exact one does.
\<close>

lemma CalculateError_float_loop_separate:
  assumes bit: "ebit = 0 \<or> ebit = 1"
  shows "\<forall>item \<in> set items. 0 \<le> snd item \<and>
           (snd item = 0 \<or> prob_of (if ebit = 0 then r1 else r0) (fst item) = 0) \<Longrightarrow>
         CalculateError_float_loop ebit [r0, r1] items 0 = Inr 0"
proof (induction items)
  case Nil
  show ?case by simp
next
  case (Cons item rest)
  obtain string v where item: "item = (string, v)" by (cases item)
  from Cons.prems have v: "0 \<le> v" "v = 0 \<or> prob_of (if ebit = 0 then r1 else r0) string = 0"
    and rest: "\<forall>item \<in> set rest. 0 \<le> snd item \<and>
           (snd item = 0 \<or> prob_of (if ebit = 0 then r1 else r0) (fst item) = 0)"
    by (simp_all add: item)
  from v have "add_error_float 0 v (prob_of (if ebit = 0 then r1 else r0) string) = 0"
    by (auto simp: add_error_float_def round_double_0)
  then show ?case
    unfolding item CalculateError_float_loop.simps other_table [OF bit] wrong_is_prob_of
    by (simp add: Cons.IH [OF rest])
qed

lemma CalculateError_float_disjoint_support:
  assumes "dict_ok r0" and "dict_ok r1" and "nonneg r0" and "nonneg r1"
    and disj: "\<forall>string. prob_of r0 string = 0 \<or> prob_of r1 string = 0"
  shows "CalculateError_float 0 [r0, r1] = Inr 0 \<and> CalculateError_float 1 [r0, r1] = Inr 0"
proof -
  have "0 \<le> snd item \<and> (snd item = 0 \<or> prob_of r1 (fst item) = 0)" if "item \<in> set r0" for item
  proof -
    obtain string v where item: "item = (string, v)" by (cases item)
    from that assms(1) have "prob_of r0 string = v" by (simp add: item prob_of_item)
    moreover from that assms(3) have "0 \<le> v" by (force simp: item nonneg_def)
    ultimately show ?thesis using disj by (auto simp: item)
  qed
  then have "\<forall>item \<in> set r0. 0 \<le> snd item \<and>
               (snd item = 0 \<or> prob_of (if (0::int) = 0 then r1 else r0) (fst item) = 0)"
    by simp
  from CalculateError_float_loop_separate [where ebit = 0 and items = r0, OF _ this]
  have zero: "CalculateError_float 0 [r0, r1] = Inr 0"
    by (simp add: CalculateError_float_def py_index_def)
  have "0 \<le> snd item \<and> (snd item = 0 \<or> prob_of r0 (fst item) = 0)" if "item \<in> set r1" for item
  proof -
    obtain string v where item: "item = (string, v)" by (cases item)
    from that assms(2) have "prob_of r1 string = v" by (simp add: item prob_of_item)
    moreover from that assms(4) have "0 \<le> v" by (force simp: item nonneg_def)
    ultimately show ?thesis using disj by (auto simp: item)
  qed
  then have "\<forall>item \<in> set r1. 0 \<le> snd item \<and>
               (snd item = 0 \<or> prob_of (if (1::int) = 0 then r1 else r0) (fst item) = 0)"
    by simp
  from CalculateError_float_loop_separate [where ebit = 1 and items = r1, OF _ this]
  have "CalculateError_float 1 [r0, r1] = Inr 0"
    by (simp add: CalculateError_float_def py_index_def)
  with zero show ?thesis by simp
qed

section \<open>Total ambiguity\<close>

text \<open>
  Claim C3 says that for two tables that are equal as mappings and whose values sum to
  1, \<open>CalculateError\<close> returns exactly \<open>0.5\<close>. It does not in the arithmetic of Python: the
  four values of \<open>tie_table\<close> are binary64 numbers with the exact sum 1, and for the
  table against itself the function returns \<open>1/2 - 2\<^sup>-\<^sup>5\<^sup>4\<close>, which Python prints as
  \<^verbatim>\<open>0.49999999999999994\<close>. Python's own sum of the four values is \<open>1 - 2\<^sup>-\<^sup>5\<^sup>3\<close>.
\<close>

theorem total_ambiguity_below_half:
  "dict_ok tie_table \<and> doubles tie_table \<and> nonneg tie_table \<and> mass tie_table = 1 \<and>
   CalculateError_float 0 [tie_table, tie_table] = Inr (1 / 2 - 1 / 2 ^ 54) \<and>
   CalculateError_float 1 [tie_table, tie_table] = Inr (1 / 2 - 1 / 2 ^ 54) \<and>
   CalculateError_float 0 [tie_table, tie_table] \<noteq> Inr 0.5 \<and>
   CalculateError_float 1 [tie_table, tie_table] \<noteq> Inr 0.5 \<and>
   float_sum tie_table = 1 - 1 / 2 ^ 53"
proof -
  have ok: "dict_ok tie_table" "nonneg tie_table" "mass tie_table = 1"
    by (simp_all add: tie_table_def dict_ok_def keys_def nonneg_def mass_def)
  have d: "doubles tie_table"
    by code_simp
  have zero: "CalculateError_float 0 [tie_table, tie_table] = Inr (1 / 2 - 1 / 2 ^ 54)"
    by code_simp
  have one: "CalculateError_float 1 [tie_table, tie_table] = Inr (1 / 2 - 1 / 2 ^ 54)"
    by code_simp
  have s: "float_sum tie_table = 1 - 1 / 2 ^ 53"
    by code_simp
  from ok d s show ?thesis
    by (simp add: zero one)
qed

text \<open>
  Claim C3, amended. When the two lookup tables are equal as mappings (the same keys with
  the same values, in whatever order), their values are binary64 numbers that halve
  exactly (0, or at least \<open>2\<^sup>-\<^sup>1\<^sup>0\<^sup>2\<^sup>1\<close>), and the values of each table, added up as Python
  adds them in the order of its keys, give 1, then every string is a tie and
  \<open>CalculateError\<close> returns exactly \<open>0.5\<close>, for the encoded bit 0 and for the encoded bit 1.
  In general the function returns half of that rounded sum (lemma
  \<open>CalculateError_float_tie\<close>), which is what differs from \<open>0.5\<close> when the exact sum is 1
  and the rounded one is not.
\<close>

theorem CalculateError_float_total_ambiguity:
  assumes "dict_ok r0" and "dict_ok r1" and "map_of r0 = map_of r1"
    and "doubles r0" and "doubles r1" and "halvable r0" and "halvable r1"
    and "float_sum r0 = 1" and "float_sum r1 = 1"
  shows "CalculateError_float 0 [r0, r1] = Inr 0.5 \<and> CalculateError_float 1 [r0, r1] = Inr 0.5"
  using CalculateError_float_tie [OF assms(1-7)] assms(8,9) by simp

theorem CalculateError_float_total_ambiguity_witness:
  "dict_ok [(''000'', 0.75 :: rat), (''111'', 0.25)] \<and>
   dict_ok [(''111'', 0.25 :: rat), (''000'', 0.75)] \<and>
   map_of [(''000'', 0.75 :: rat), (''111'', 0.25)] = map_of [(''111'', 0.25), (''000'', 0.75)] \<and>
   doubles [(''000'', 0.75), (''111'', 0.25)] \<and>
   doubles [(''111'', 0.25), (''000'', 0.75)] \<and>
   halvable [(''000'', 0.75), (''111'', 0.25)] \<and>
   halvable [(''111'', 0.25), (''000'', 0.75)] \<and>
   float_sum [(''000'', 0.75), (''111'', 0.25)] = 1 \<and>
   float_sum [(''111'', 0.25), (''000'', 0.75)] = 1 \<and>
   CalculateError_float 0 [[(''000'', 0.75), (''111'', 0.25)], [(''111'', 0.25), (''000'', 0.75)]]
     = Inr 0.5 \<and>
   CalculateError_float 1 [[(''000'', 0.75), (''111'', 0.25)], [(''111'', 0.25), (''000'', 0.75)]]
     = Inr 0.5"
proof -
  have ok: "dict_ok [(''000'', 0.75 :: rat), (''111'', 0.25)]"
           "dict_ok [(''111'', 0.25 :: rat), (''000'', 0.75)]"
    by (simp_all add: dict_ok_def keys_def)
  have same: "map_of [(''000'', 0.75 :: rat), (''111'', 0.25)]
                = map_of [(''111'', 0.25), (''000'', 0.75)]"
    by (auto simp: fun_eq_iff)
  have d: "doubles [(''000'', 0.75), (''111'', 0.25)]"
          "doubles [(''111'', 0.25), (''000'', 0.75)]"
    by code_simp+
  have "(2 :: rat) powi (- 1021) \<le> 2 powi (- 2)"
    by (rule pow2_le) simp
  then have "(2 :: rat) powi (- 1021) \<le> 0.25" "(2 :: rat) powi (- 1021) \<le> 0.75"
    by (simp_all add: power_int_minus)
  then have h: "halvable [(''000'', 0.75), (''111'', 0.25)]"
               "halvable [(''111'', 0.25), (''000'', 0.75)]"
    by (simp_all add: halvable_def halves_exactly_def)
  have s: "float_sum [(''000'', 0.75), (''111'', 0.25)] = 1"
          "float_sum [(''111'', 0.25), (''000'', 0.75)] = 1"
    by code_simp+
  from CalculateError_float_total_ambiguity [OF ok same d h s] ok same d h s show ?thesis
    by simp
qed

section \<open>The error lies in the unit interval\<close>

text \<open>
  Claim C5 says that for tables without negative values, where the values of the table
  of the encoded bit sum to at most 1, \<open>CalculateError\<close> returns a number in \<open>[0,1]\<close>. It
  does not in the arithmetic of Python: the values of \<open>right_table\<close> and of \<open>wrong_table\<close>
  are positive binary64 numbers with exact sums below 1, every string is more likely in
  \<open>wrong_table\<close>, so that every value of \<open>right_table\<close> is added, and the roundings on
  the way take the result to \<open>1 + 2\<^sup>-\<^sup>5\<^sup>2\<close>, which Python prints as \<^verbatim>\<open>1.0000000000000002\<close>.
\<close>

theorem unit_interval_exceeded:
  "nonneg right_table \<and> nonneg wrong_table \<and> doubles right_table \<and> doubles wrong_table \<and>
   dict_ok right_table \<and> dict_ok wrong_table \<and>
   mass right_table \<le> 1 \<and> mass wrong_table \<le> 1 \<and>
   CalculateError_float 0 [right_table, wrong_table] = Inr (1 + 1 / 2 ^ 52) \<and>
   (1 :: rat) < 1 + 1 / 2 ^ 52"
proof -
  have ok: "nonneg right_table" "nonneg wrong_table" "dict_ok right_table" "dict_ok wrong_table"
      "mass right_table \<le> 1" "mass wrong_table \<le> 1"
    by (simp_all add: right_table_def wrong_table_def dict_ok_def keys_def nonneg_def mass_def)
  have d: "doubles right_table" "doubles wrong_table"
    by code_simp+
  have e: "CalculateError_float 0 [right_table, wrong_table] = Inr (1 + 1 / 2 ^ 52)"
    by code_simp
  from ok d show ?thesis
    by (simp add: e)
qed

text \<open>
  Claim C5, amended. For the encoded bit 0 or 1 and lookup tables whose values are
  binary64 numbers, none of them negative, where the values of the table of the encoded
  bit, added up as Python adds them in the order of its keys, give at most 1,
  \<open>CalculateError\<close> returns a number between 0 and 1: it is never negative and never
  more than that rounded sum of the table of the encoded bit.
\<close>

theorem CalculateError_float_in_unit_interval:
  assumes "ebit = 0 \<or> ebit = 1" and "nonneg r0" and "nonneg r1"
    and "doubles r0" and "doubles r1"
    and "float_sum ([r0, r1] ! nat ebit) \<le> 1"
  shows "\<exists>e. CalculateError_float ebit [r0, r1] = Inr e \<and>
             0 \<le> e \<and> e \<le> float_sum ([r0, r1] ! nat ebit) \<and> e \<le> 1"
  using assms(1,6) CalculateError_float_bounds [OF assms(2,4,3,5)]
  by (elim disjE) fastforce+

theorem CalculateError_float_in_unit_interval_witness:
  "((0::int) = 0 \<or> (0::int) = 1) \<and>
   nonneg [(''000'', 0.75), (''001'', 0.125), (''111'', 0.125)] \<and>
   nonneg [(''000'', 0.125), (''001'', 0.125), (''111'', 0.75)] \<and>
   doubles [(''000'', 0.75), (''001'', 0.125), (''111'', 0.125)] \<and>
   doubles [(''000'', 0.125), (''001'', 0.125), (''111'', 0.75)] \<and>
   float_sum [(''000'', 0.75), (''001'', 0.125), (''111'', 0.125)] \<le> 1 \<and>
   CalculateError_float 0 [[(''000'', 0.75), (''001'', 0.125), (''111'', 0.125)],
                           [(''000'', 0.125), (''001'', 0.125), (''111'', 0.75)]] = Inr 0.1875 \<and>
   (0 :: rat) \<le> 0.1875 \<and> (0.1875 :: rat) \<le> 1"
proof -
  have nn: "nonneg [(''000'', 0.75), (''001'', 0.125), (''111'', 0.125)]"
           "nonneg [(''000'', 0.125), (''001'', 0.125), (''111'', 0.75)]"
    by (simp_all add: nonneg_def)
  have d: "doubles [(''000'', 0.75), (''001'', 0.125), (''111'', 0.125)]"
          "doubles [(''000'', 0.125), (''001'', 0.125), (''111'', 0.75)]"
    by code_simp+
  have s: "float_sum [(''000'', 0.75), (''001'', 0.125), (''111'', 0.125)] = 1"
    by code_simp
  then have s': "float_sum ([[(''000'', 0.75), (''001'', 0.125), (''111'', 0.125)],
                             [(''000'', 0.125), (''001'', 0.125), (''111'', 0.75)]] ! nat 0) \<le> 1"
    by simp
  have e: "CalculateError_float 0 [[(''000'', 0.75), (''001'', 0.125), (''111'', 0.125)],
              [(''000'', 0.125), (''001'', 0.125), (''111'', 0.75)]] = Inr 0.1875"
    by code_simp
  have b: "(0::int) = 0 \<or> (0::int) = 1" by simp
  from CalculateError_float_in_unit_interval [OF b nn d s'] nn d s e show ?thesis
    by simp
qed

section \<open>GetData keeps the probability mass\<close>

lemma mass_add_three:
  "add_three p strings (f, c, s) = Inr (f', c', s') \<Longrightarrow>
   mass f' = mass f + p \<and> mass c' = mass c + p \<and> mass s' = mass s + p"
  by (auto simp: add_three_def split: prod.splits sum.splits dest: mass_AddProbToResults)

lemma GetData_loop_mass:
  "GetData_loop d simulator raw (f, c, s) = Inr (f', c', s') \<Longrightarrow>
   mass f' = mass f + mass raw \<and> mass c' = mass c + mass raw \<and> mass s' = mass s + mass raw"
proof (induction raw arbitrary: f c s)
  case Nil
  then show ?case by (simp add: mass_def)
next
  case (Cons item rest)
  obtain stringRaw v where item: "item = (stringRaw, v)" by (cases item)
  from Cons.prems obtain strings f1 c1 s1 where
    step: "add_three v strings (f, c, s) = Inr (f1, c1, s1)" and
    rest: "GetData_loop d simulator rest (f1, c1, s1) = Inr (f', c', s')"
    by (auto simp: item py_is_not_def split: sum.splits)
  from mass_add_three [OF step] Cons.IH [OF rest] show ?case
    by (simp add: item mass_def)
qed

text \<open>
  Claim C2. Whenever the loop of \<open>GetData\<close> gets through a raw distribution, each of the
  three distributions it has built (full code, code qubits only, single qubit) has the
  same total as the raw distribution; so each sums to 1 when the raw one does.
\<close>

theorem GetData_loop_conservation:
  assumes "GetData_loop d simulator resultsRaw ([], [], [])
             = Inr (resultsFull, resultsCode, resultsSingle)"
  shows "mass resultsFull = mass resultsRaw \<and> mass resultsCode = mass resultsRaw \<and>
         mass resultsSingle = mass resultsRaw \<and>
         (mass resultsRaw = 1 \<longrightarrow>
            mass resultsFull = 1 \<and> mass resultsCode = 1 \<and> mass resultsSingle = 1)"
  using GetData_loop_mass [OF assms] by (simp add: mass_def)

theorem GetData_loop_conservation_witness:
  "GetData_loop 3 True [(''000000'', 0.5), (''010101'', 0.25), (''100000'', 0.25)] ([], [], [])
     = Inr ([(''00000'', 0.75), (''10101'', 0.25)],
            [(''000'', 0.75), (''111'', 0.25)],
            [(''0'', 0.75), (''1'', 0.25)]) \<and>
   mass [(''000000'', 0.5), (''010101'', 0.25), (''100000'', 0.25)] = 1 \<and>
   mass [(''00000'', 0.75), (''10101'', 0.25)] = 1 \<and>
   mass [(''000'', 0.75), (''111'', 0.25)] = 1 \<and>
   mass [(''0'', 0.75), (''1'', 0.25)] = 1"
proof -
  have run: "GetData_loop 3 True [(''000000'', 0.5), (''010101'', 0.25), (''100000'', 0.25)]
               ([], [], [])
             = Inr ([(''00000'', 0.75), (''10101'', 0.25)],
                    [(''000'', 0.75), (''111'', 0.25)],
                    [(''0'', 0.75), (''1'', 0.25)])"
    by code_simp
  have "mass [(''000000'', 0.5), (''010101'', 0.25), (''100000'', 0.25)] = 1"
    by (simp add: mass_def)
  with run GetData_loop_conservation [OF run] show ?thesis
    by simp
qed

section \<open>The loop of GetData gets through well-formed raw results\<close>

text \<open>
  When every raw string has one character per qubit of the register (\<open>2 d\<close> on a
  simulator, 16 on the device) and \<open>d \<ge> 1\<close>, every character read is inside the string
  and the loop of \<open>GetData\<close> returns its three distributions.
\<close>

lemma py_index_in_range:
  "0 \<le> i \<Longrightarrow> i < int (length xs) \<Longrightarrow> \<exists>x. py_index xs i = Inr x"
  by (simp add: py_index_def)

lemma read_in_range:
  assumes "1 \<le> d" and "0 \<le> codeQubit" and "codeQubit \<le> d - 1"
    and "offset = 0 \<or> offset = 1"
    and "int (length stringRaw) = num_qubits d simulator"
  shows "\<exists>c. py_index stringRaw
               (int (length stringRaw) - 1 - GetAddress codeQubit offset simulator) = Inr c"
proof (rule py_index_in_range)
  from assms show "0 \<le> int (length stringRaw) - 1 - GetAddress codeQubit offset simulator"
    by (auto simp: GetAddress_def num_qubits_def)
  from assms show "int (length stringRaw) - 1 - GetAddress codeQubit offset simulator
                     < int (length stringRaw)"
    by (auto simp: GetAddress_def num_qubits_def)
qed

lemma stringFull_loop_succeeds:
  assumes "1 \<le> d" and "int (length stringRaw) = num_qubits d simulator"
    and "\<forall>q \<in> set codeQubits. 0 \<le> q \<and> q \<le> d - 1" and "distinct codeQubits"
  shows "\<exists>s. stringFull_loop stringRaw d simulator codeQubits acc = Inr s \<and>
             length s = length acc + 2 * length codeQubits
                        - (if d - 1 \<in> set codeQubits then 1 else 0)"
  using assms(3,4)
proof (induction codeQubits arbitrary: acc)
  case Nil
  show ?case by simp
next
  case (Cons q rest)
  from Cons.prems have q: "0 \<le> q" "q \<le> d - 1" and
    rest: "\<forall>q \<in> set rest. 0 \<le> q \<and> q \<le> d - 1" "distinct rest" and new: "q \<notin> set rest"
    by simp_all
  from read_in_range [OF assms(1) q _ assms(2), of 0] obtain c where
    c: "py_index stringRaw (int (length stringRaw) - 1 - GetAddress q 0 simulator) = Inr c"
    by auto
  from read_in_range [OF assms(1) q _ assms(2), of 1] obtain a where
    a: "py_index stringRaw (int (length stringRaw) - 1 - GetAddress q 1 simulator) = Inr a"
    by auto
  show ?case
  proof (cases "q = d - 1")
    case True
    from Cons.IH [OF rest, of "acc @ [c]"] True new c show ?thesis
      by (auto simp: Let_def)
  next
    case False
    from Cons.IH [OF rest, of "acc @ [c, a]"] False c a show ?thesis
      by (auto simp: Let_def)
  qed
qed

lemma stringCode_loop_succeeds:
  assumes "\<forall>n \<in> set ns. 0 \<le> n \<and> 2 * n < int (length stringFull)"
  shows "\<exists>s. stringCode_loop stringFull ns acc = Inr s"
  using assms
proof (induction ns arbitrary: acc)
  case Nil
  show ?case by simp
next
  case (Cons n rest)
  then have "0 \<le> 2 * n" "2 * n < int (length stringFull)" by simp_all
  from py_index_in_range [OF this] obtain c where "py_index stringFull (2 * n) = Inr c"
    by blast
  with Cons show ?case by simp
qed

lemma remap_succeeds:
  assumes "1 \<le> d" and "int (length stringRaw) = num_qubits d simulator"
  shows "\<exists>strings. remap stringRaw d simulator = Inr strings"
proof -
  have "\<forall>q \<in> set (py_range d). 0 \<le> q \<and> q \<le> d - 1" "distinct (py_range d)"
    by (simp_all add: py_range_def)
  from stringFull_loop_succeeds [OF assms this, of "[]"] obtain stringFull where
    full: "stringFull_loop stringRaw d simulator (py_range d) [] = Inr stringFull" and
    len: "length stringFull = 2 * length (py_range d) - (if d - 1 \<in> set (py_range d) then 1 else 0)"
    by auto
  from assms(1) have "d - 1 \<in> set (py_range d)" "int (length (py_range d)) = d"
    by (simp_all add: py_range_def)
  with len assms(1) have "int (length stringFull) = 2 * d - 1"
    by simp
  then have "\<forall>n \<in> set (py_range d). 0 \<le> n \<and> 2 * n < int (length stringFull)"
    by (simp add: py_range_def)
  from stringCode_loop_succeeds [OF this, of "[]"] obtain stringCode where
    code: "stringCode_loop stringFull (py_range d) [] = Inr stringCode"
    by blast
  from read_in_range [OF assms(1) _ _ _ assms(2), of "d - 1" 1] assms(1) obtain c where
    "py_index stringRaw (int (length stringRaw) - 1 - GetAddress (d - 1) 1 simulator) = Inr c"
    by auto
  with full code show ?thesis
    by (simp add: remap_def Let_def)
qed

lemma add_three_succeeds: "\<exists>acc'. add_three v strings acc = Inr acc'"
proof -
  obtain stringFull stringCode stringSingle where
    strings: "strings = (stringFull, stringCode, stringSingle)"
    by (cases strings rule: prod_cases3)
  obtain resultsFull resultsCode resultsSingle where
    acc: "acc = (resultsFull, resultsCode, resultsSingle)"
    by (cases acc rule: prod_cases3)
  show ?thesis
    by (simp add: strings acc add_three_def AddProbToResults_eq)
qed

lemma GetData_loop_succeeds:
  assumes "1 \<le> d"
    and "\<forall>stringRaw \<in> set (keys resultsRaw). int (length stringRaw) = num_qubits d simulator"
  shows "\<exists>derived. GetData_loop d simulator resultsRaw acc = Inr derived"
  using assms(2)
proof (induction resultsRaw arbitrary: acc)
  case Nil
  show ?case by (intro exI) simp
next
  case (Cons item rest)
  obtain stringRaw v where item: "item = (stringRaw, v)" by (cases item)
  from Cons.prems have "int (length stringRaw) = num_qubits d simulator"
    and rest: "\<forall>stringRaw \<in> set (keys rest). int (length stringRaw) = num_qubits d simulator"
    by (simp_all add: item keys_def)
  from remap_succeeds [OF assms(1) this(1)] obtain strings where
    "remap stringRaw d simulator = Inr strings" by blast
  moreover from add_three_succeeds obtain acc' where "add_three v strings acc = Inr acc'"
    by blast
  ultimately show ?case
    using Cons.IH [OF rest, of acc'] by (simp add: item py_is_not_def)
qed

section \<open>The guard of GetData's loop\<close>

text \<open>
  Claim C9. The test \<^verbatim>\<open>resultsRaw[bit][stringRaw] is not str\<close> holds for every number and
  for every string value, since neither is the type object \<^verbatim>\<open>str\<close>; so the loop of
  \<open>GetData\<close> handles every key of the raw distribution, and does exactly what the loop
  without the guard does.
\<close>

theorem GetData_loop_guard_redundant:
  "(\<forall>v. py_is_not (PyNum v) PyType_str) \<and> (\<forall>s. py_is_not (PyStr s) PyType_str) \<and>
   GetData_loop d simulator resultsRaw acc = GetData_loop_unguarded d simulator resultsRaw acc"
proof -
  have "GetData_loop d simulator resultsRaw acc
          = GetData_loop_unguarded d simulator resultsRaw acc"
  proof (induction resultsRaw arbitrary: acc)
    case Nil
    show ?case by simp
  next
    case (Cons item rest)
    obtain stringRaw v where item: "item = (stringRaw, v)" by (cases item)
    show ?case
      by (simp add: item py_is_not_def Cons.IH split: sum.splits)
  qed
  then show ?thesis by (simp add: py_is_not_def)
qed

section \<open>RunRepetition returns complete results only\<close>

lemma execute_loop_first:
  assumes "''status'' \<notin> set (keys (backend (n + k) j))"
    and "\<forall>i<k. ''status'' \<in> set (keys (backend (n + i) j))"
  shows "execute_loop backend j n = Some (backend (n + k) j, Suc (n + k))"
  using assms
proof (induction k arbitrary: n)
  case 0
  then show ?case
    by (subst execute_loop.simps) simp
next
  case (Suc k)
  from Suc.prems(2) have now: "''status'' \<in> set (keys (backend n j))"
    by (metis add.right_neutral zero_less_Suc)
  have later: "\<forall>i<k. ''status'' \<in> set (keys (backend (Suc n + i) j))"
    using Suc.prems(2) by (metis Suc_less_eq add_Suc_shift)
  have last: "''status'' \<notin> set (keys (backend (Suc n + k) j))"
    using Suc.prems(1) by simp
  have "execute_loop backend j n = execute_loop backend j (Suc n)"
    using now by (subst execute_loop.simps) simp
  with Suc.IH [OF last later] show ?case
    by simp
qed

lemma execute_loop_sound_aux:
  assumes "execute_loop backend j n = Some y"
  shows "''status'' \<notin> set (keys (fst y)) \<and>
         (\<exists>k. snd y = Suc (n + k) \<and> fst y = backend (n + k) j \<and>
              (\<forall>i<k. ''status'' \<in> set (keys (backend (n + i) j))))"
proof -
  let ?P = "\<lambda>(backend :: backend) j n (y :: response \<times> nat).
     ''status'' \<notin> set (keys (fst y)) \<and>
     (\<exists>k. snd y = Suc (n + k) \<and> fst y = backend (n + k) j \<and>
          (\<forall>i<k. ''status'' \<in> set (keys (backend (n + i) j))))"
  have "?P backend j n y"
  proof (rule execute_loop.raw_induct [where P = ?P, OF _ assms])
    fix loop :: "backend \<Rightarrow> job \<Rightarrow> nat \<Rightarrow> (response \<times> nat) option"
    fix backend :: backend and j n and y :: "response \<times> nat"
    assume IH: "\<And>b j n y. loop b j n = Some y \<Longrightarrow> ?P b j n y"
    assume step: "(let results = backend n j
                   in if ''status'' \<notin> set (keys results) then Some (results, Suc n)
                      else loop backend j (Suc n)) = Some y"
    show "?P backend j n y"
    proof (cases "''status'' \<in> set (keys (backend n j))")
      case False
      with step have "y = (backend n j, Suc n)"
        by (simp add: Let_def)
      with False show ?thesis by auto
    next
      case True
      with step have "loop backend j (Suc n) = Some y"
        by (simp add: Let_def)
      from IH [OF this] obtain k where
        k: "''status'' \<notin> set (keys (fst y))" "snd y = Suc (Suc n + k)"
           "fst y = backend (Suc n + k) j"
           "\<forall>i<k. ''status'' \<in> set (keys (backend (Suc n + i) j))"
        by blast
      have "\<forall>i<Suc k. ''status'' \<in> set (keys (backend (n + i) j))"
      proof (intro allI impI)
        fix i assume "i < Suc k"
        show "''status'' \<in> set (keys (backend (n + i) j))"
        proof (cases i)
          case 0
          with True show ?thesis by simp
        next
          case (Suc i')
          with \<open>i < Suc k\<close> k(4) show ?thesis by simp
        qed
      qed
      with k show ?thesis
        by (intro conjI exI [of _ "Suc k"]) simp_all
    qed
  qed
  then show ?thesis .
qed

lemma execute_loop_sound:
  assumes "execute_loop backend j n = Some (results, n')"
  shows "''status'' \<notin> set (keys results) \<and>
         (\<exists>k. n' = Suc (n + k) \<and> results = backend (n + k) j \<and>
              (\<forall>i<k. ''status'' \<in> set (keys (backend (n + i) j))))"
  using execute_loop_sound_aux [OF assms] by simp

lemma keys_to_fractions: "to_fractions results = Inr resultsRaw \<Longrightarrow> keys resultsRaw = keys results"
proof (induction results arbitrary: resultsRaw)
  case Nil
  then show ?case by (simp add: keys_def)
next
  case (Cons item rest)
  obtain key v where item: "item = (key, v)" by (cases item)
  from Cons.prems obtain x rest' where
    "to_fractions rest = Inr rest'" "resultsRaw = (key, x) # rest'"
    by (auto simp: item split: sum.splits)
  with Cons.IH show ?case
    by (simp add: item keys_def)
qed


text \<open>
  Claim C6. \<open>RunRepetition\<close> never returns an incomplete result. A dictionary it returns
  has no key \<^verbatim>\<open>'status'\<close>. It executes the job again as long as the answer has that key:
  when the answers to the next \<open>k\<close> executions have it and the one after has not,
  \<open>RunRepetition\<close> returns that first complete answer, as fractions, after \<open>k + 1\<close>
  executions. And what \<open>GetData\<close> feeds into its loop, for either bit, is such a
  dictionary.
\<close>

theorem RunRepetition_never_incomplete:
  "(RunRepetition lib ebit d device backend n = Some (Inr resultsRaw, n') \<longrightarrow>
      ''status'' \<notin> set (keys resultsRaw)) \<and>
   (RunRepetition_circuit lib ebit d device = Inr script \<and>
    (\<forall>i<k. ''status'' \<in> set (keys (backend (n + i) (job_for d device script)))) \<and>
    ''status'' \<notin> set (keys (backend (n + k) (job_for d device script))) \<longrightarrow>
      RunRepetition lib ebit d device backend n
        = Some (to_fractions (backend (n + k) (job_for d device script)), Suc (n + k))) \<and>
   (GetData_bit lib ebit d device backend n = Some (Inr derived, n') \<longrightarrow>
      (\<exists>raw. RunRepetition lib ebit d device backend n = Some (Inr raw, n') \<and>
             ''status'' \<notin> set (keys raw) \<and>
             GetData_loop d (device \<noteq> ''ibmqx3'') raw ([], [], []) = Inr derived))"
proof (intro conjI impI)
  assume run: "RunRepetition lib ebit d device backend n = Some (Inr resultsRaw, n')"
  then obtain script results where
    "execute_loop backend (job_for d device script) n = Some (results, n')"
    "to_fractions results = Inr resultsRaw"
    by (auto simp: RunRepetition_def split: sum.splits option.splits)
  with execute_loop_sound keys_to_fractions show "''status'' \<notin> set (keys resultsRaw)"
    by metis
next
  assume a: "RunRepetition_circuit lib ebit d device = Inr script \<and>
    (\<forall>i<k. ''status'' \<in> set (keys (backend (n + i) (job_for d device script)))) \<and>
    ''status'' \<notin> set (keys (backend (n + k) (job_for d device script)))"
  then have "execute_loop backend (job_for d device script) n
               = Some (backend (n + k) (job_for d device script), Suc (n + k))"
    by (intro execute_loop_first) simp_all
  with a show "RunRepetition lib ebit d device backend n
        = Some (to_fractions (backend (n + k) (job_for d device script)), Suc (n + k))"
    by (simp add: RunRepetition_def)
next
  assume g: "GetData_bit lib ebit d device backend n = Some (Inr derived, n')"
  then obtain raw where
    run: "RunRepetition lib ebit d device backend n = Some (Inr raw, n')" and
    loop: "GetData_loop d (device \<noteq> ''ibmqx3'') raw ([], [], []) = Inr derived"
    by (auto simp: GetData_bit_def split: option.splits sum.splits)
  from run obtain script results where
    "execute_loop backend (job_for d device script) n = Some (results, n')"
    "to_fractions results = Inr raw"
    by (auto simp: RunRepetition_def split: sum.splits option.splits)
  with execute_loop_sound keys_to_fractions have "''status'' \<notin> set (keys raw)"
    by metis
  with run loop show "\<exists>raw. RunRepetition lib ebit d device backend n = Some (Inr raw, n') \<and>
             ''status'' \<notin> set (keys raw) \<and>
             GetData_loop d (device \<noteq> ''ibmqx3'') raw ([], [], []) = Inr derived"
    by blast
qed


theorem RunRepetition_never_incomplete_witness:
  "RunRepetition strict_library 0 3 ''local_qasm_simulator'' retry_backend 0
     = Some (Inr [(''000000'', 0.5), (''010101'', 0.25), (''100000'', 0.25)], 3) \<and>
   ''status'' \<notin> set (keys [(''000000'', 0.5 :: rat), (''010101'', 0.25), (''100000'', 0.25)]) \<and>
   RunRepetition_circuit strict_library 0 3 ''local_qasm_simulator'' = Inr circuit_0_3 \<and>
   ''status'' \<in> set (keys (retry_backend 0 (job_for 3 ''local_qasm_simulator'' circuit_0_3))) \<and>
   ''status'' \<in> set (keys (retry_backend 1 (job_for 3 ''local_qasm_simulator'' circuit_0_3))) \<and>
   ''status'' \<notin> set (keys (retry_backend 2 (job_for 3 ''local_qasm_simulator'' circuit_0_3))) \<and>
   RunRepetition strict_library 0 3 ''local_qasm_simulator'' retry_backend 0
     = Some (to_fractions (retry_backend 2 (job_for 3 ''local_qasm_simulator'' circuit_0_3)), 3) \<and>
   GetData_bit strict_library 0 3 ''local_qasm_simulator'' retry_backend 0
     = Some (Inr ([(''00000'', 0.75), (''10101'', 0.25)],
                  [(''000'', 0.75), (''111'', 0.25)],
                  [(''0'', 0.75), (''1'', 0.25)]), 3)"
proof -
  have run: "RunRepetition strict_library 0 3 ''local_qasm_simulator'' retry_backend 0
      = Some (Inr [(''000000'', 0.5), (''010101'', 0.25), (''100000'', 0.25)], 3)"
    by code_simp
  have circuit: "RunRepetition_circuit strict_library 0 3 ''local_qasm_simulator'' = Inr circuit_0_3"
    by code_simp
  have answers:
    "\<forall>i<2. ''status'' \<in> set (keys (retry_backend (0 + i)
                 (job_for 3 ''local_qasm_simulator'' circuit_0_3)))"
    "''status'' \<notin> set (keys (retry_backend (0 + 2)
                 (job_for 3 ''local_qasm_simulator'' circuit_0_3)))"
    by (simp_all add: retry_backend_def keys_def)
  have derived: "GetData_bit strict_library 0 3 ''local_qasm_simulator'' retry_backend 0
     = Some (Inr ([(''00000'', 0.75), (''10101'', 0.25)],
                  [(''000'', 0.75), (''111'', 0.25)],
                  [(''0'', 0.75), (''1'', 0.25)]), 3)"
    by code_simp
  from RunRepetition_never_incomplete
         [of strict_library 0 3 "''local_qasm_simulator''" retry_backend 0
             "[(''000000'', 0.5), (''010101'', 0.25), (''100000'', 0.25)]" 3 circuit_0_3 2]
       run circuit answers derived
  show ?thesis
    by (simp add: retry_backend_def keys_def)
qed

section \<open>No check of the code distance\<close>

lemma add_gate_provided:
  "provides lib num \<Longrightarrow> well_addressed num g \<Longrightarrow> add_gate lib num script g = Inr (script @ [g])"
  by (simp add: provides_def add_gate_def)

lemma add_gates_provided:
  "provides lib num \<Longrightarrow> \<forall>g \<in> set gs. well_addressed num g \<Longrightarrow>
   add_gates lib num script gs = Inr (script @ gs)"
proof (induction gs arbitrary: script)
  case Nil
  show ?case by simp
next
  case (Cons g gs)
  then show ?case by (simp add: add_gate_provided)
qed

lemma device_address: "0 \<le> GetAddress codeQubit offset False \<and> GetAddress codeQubit offset False < 16"
  by (simp add: GetAddress_def)

lemma small_ranges: "d < 2 \<Longrightarrow> py_range (d - 1) = [] \<and> [1..d - 1] = []"
  by (simp add: py_range_def)

text \<open>
  What \<open>AddError\<close> asks for: nothing on the device, and on a simulator with two qubits a
  rotation of each and a barrier.
\<close>

lemma AddError_provided:
  assumes "provides lib num" and "simulator \<longrightarrow> num = 2"
  shows "\<exists>gs. (\<forall>script. AddError lib script num simulator ebit = Inr (script @ gs)) \<and>
              (\<forall>g \<in> set gs. well_addressed num g)"
proof (cases simulator)
  case False
  then have "\<forall>script. AddError lib script num simulator ebit = Inr (script @ [])"
    by (simp add: AddError_def)
  then show ?thesis by (intro exI [of _ "[]"]) simp
next
  case True
  with assms(2) have num: "num = 2" by simp
  have r: "py_range_step2 0 1 = [0]" "py_range_step2 1 1 = []"
    by (simp_all add: py_range_step2_def upto.simps)
  have three: "add_gates lib 2 script [U3 a 0, U3 b 1, Barrier]
                 = Inr (script @ [U3 a 0, U3 b 1, Barrier])" for script a b
    using assms(1) unfolding num by (rule add_gates_provided) simp
  show ?thesis
  proof (cases "ebit = 1")
    case True
    have "\<forall>script. AddError lib script num simulator ebit
            = Inr (script @ [U3 (0.05 * 2) 0, U3 (0.05 * 2) 1, Barrier])"
      using True \<open>simulator\<close>
      by (simp add: AddError_def num r Let_def three del: add_gates.simps)
    moreover have "\<forall>g \<in> set [U3 (0.05 * 2) 0, U3 (0.05 * 2) 1, Barrier]. well_addressed 2 g"
      by simp
    ultimately show ?thesis unfolding num by blast
  next
    case False
    have "\<forall>script. AddError lib script num simulator ebit
            = Inr (script @ [U3 0.05 0, U3 0.05 1, Barrier])"
      using False \<open>simulator\<close>
      by (simp add: AddError_def num r Let_def three del: add_gates.simps)
    moreover have "\<forall>g \<in> set [U3 0.05 0, U3 0.05 1, Barrier]. well_addressed 2 g"
      by simp
    ultimately show ?thesis unfolding num by blast
  qed
qed

lemma encode_gates_small:
  assumes "d < 2" and "d = 1 \<or> device = ''ibmqx3''"
  shows "\<forall>g \<in> set (encode_gates ebit d (device \<noteq> ''ibmqx3'')).
           well_addressed (num_qubits d (device \<noteq> ''ibmqx3'')) g"
proof (cases "device = ''ibmqx3''")
  case True
  then show ?thesis
    using device_address by (auto simp: encode_gates_def num_qubits_def)
next
  case False
  with assms(2) have "d = 1" by simp
  moreover have "py_range 1 = [0]" by (simp add: py_range_def upto.simps)
  ultimately show ?thesis
    using False by (auto simp: encode_gates_def num_qubits_def GetAddress_def)
qed

lemma measure_gates_ok:
  "\<forall>g \<in> set (map (\<lambda>address. Measure address address) (py_range num)). well_addressed num g"
  by (auto simp: py_range_def)

lemma circuit_small_distance:
  assumes small: "d < 2" and which: "d = 1 \<or> device = ''ibmqx3''"
    and lib: "provides lib (num_qubits d (device \<noteq> ''ibmqx3''))"
  shows "\<exists>script. RunRepetition_circuit lib ebit d device = Inr script \<and>
           (\<forall>g \<in> set script. well_addressed (num_qubits d (device \<noteq> ''ibmqx3'')) g)"
proof -
  let ?sim = "device \<noteq> ''ibmqx3''"
  let ?num = "num_qubits d ?sim"
  let ?E = "encode_gates ebit d ?sim"
  let ?M = "map (\<lambda>address. Measure address address) (py_range ?num)"
  from which have two: "?sim \<longrightarrow> ?num = 2"
    by (auto simp: num_qubits_def)
  have regs: "makes_registers lib ?num"
    using lib by (simp add: provides_def)
  have E: "\<forall>g \<in> set ?E. well_addressed ?num g"
    using small which by (rule encode_gates_small)
  have s1: "add_gates lib ?num [] ?E = Inr ?E"
    using add_gates_provided [OF lib E, of "[]"] by simp
  from AddError_provided [OF lib two] obtain A where
    A: "\<And>script. AddError lib script ?num ?sim ebit = Inr (script @ A)"
       "\<forall>g \<in> set A. well_addressed ?num g"
    by blast
  have b: "add_gate lib ?num script Barrier = Inr (script @ [Barrier])" for script
    using lib by (rule add_gate_provided) simp
  have m: "add_gates lib ?num script ?M = Inr (script @ ?M)" for script
    using lib measure_gates_ok by (rule add_gates_provided)
  have "RunRepetition_circuit lib ebit d device
          = Inr (?E @ A @ [Barrier] @ A @ [Barrier] @ A @ ?M)"
    using small_ranges [OF small] regs
    by (simp add: RunRepetition_circuit_def Let_def s1 A(1) b m)
  moreover have "\<forall>g \<in> set (?E @ A @ [Barrier] @ A @ [Barrier] @ A @ ?M).
                   well_addressed ?num g"
    using E A(2) measure_gates_ok [of ?num] by auto
  ultimately show ?thesis by blast
qed

lemma RunRepetition_executes:
  assumes "RunRepetition_circuit lib ebit d device = Inr script"
    and "RunRepetition lib ebit d device backend n = Some (r, n')"
  shows "n < n'"
proof -
  from assms obtain results where
    "execute_loop backend (job_for d device script) n = Some (results, n')"
    by (auto simp: RunRepetition_def split: option.splits)
  from execute_loop_sound [OF this] show ?thesis by auto
qed

lemma RunRepetition_first_complete:
  assumes "RunRepetition_circuit lib ebit d device = Inr script"
    and "''status'' \<notin> set (keys (backend n (job_for d device script)))"
  shows "RunRepetition lib ebit d device backend n
           = Some (to_fractions (backend n (job_for d device script)), Suc n)"
proof -
  have "execute_loop backend (job_for d device script) n
          = Some (backend (n + 0) (job_for d device script), Suc (n + 0))"
    by (rule execute_loop_first) (use assms(2) in simp_all)
  with assms(1) show ?thesis by (simp add: RunRepetition_def)
qed

text \<open>When the library does not make the registers, nothing is executed.\<close>

lemma RunRepetition_refused:
  assumes "\<not> makes_registers lib (num_qubits d (device \<noteq> ''ibmqx3''))"
  shows "RunRepetition lib ebit d device backend n = Some (Inl QISKitError, n)"
    and "GetData lib d device verbose backend n = Some (Inl QISKitError, n)"
proof -
  from assms have c: "RunRepetition_circuit lib b d device = Inl QISKitError" for b
    by (simp add: RunRepetition_circuit_def Let_def)
  then show "RunRepetition lib ebit d device backend n = Some (Inl QISKitError, n)"
    by (simp add: RunRepetition_def)
  from c show "GetData lib d device verbose backend n = Some (Inl QISKitError, n)"
    by (simp add: GetData_def GetData_bit_def RunRepetition_def)
qed

text \<open>
  \<open>GetData\<close> gets through complete answers. On the device with \<open>d \<le> 0\<close> the loops over
  the code qubits are empty, and the one character read is inside a string of 16.
\<close>

lemma remap_succeeds_device:
  assumes "d \<le> 0" and "int (length stringRaw) = 16"
  shows "\<exists>strings. remap stringRaw d False = Inr strings"
proof -
  from assms(1) have r: "py_range d = []" by (simp add: py_range_def)
  have "0 \<le> int (length stringRaw) - 1 - GetAddress (d - 1) 1 False"
       "int (length stringRaw) - 1 - GetAddress (d - 1) 1 False < int (length stringRaw)"
    using device_address [of "d - 1" 1] assms(2) by simp_all
  from py_index_in_range [OF this] obtain c where
    "py_index stringRaw (int (length stringRaw) - 1 - GetAddress (d - 1) 1 False) = Inr c"
    by blast
  then show ?thesis by (simp add: remap_def r Let_def)
qed

lemma remap_succeeds_small:
  assumes "d = 1 \<or> device = ''ibmqx3''"
    and "int (length stringRaw) = num_qubits d (device \<noteq> ''ibmqx3'')"
  shows "\<exists>strings. remap stringRaw d (device \<noteq> ''ibmqx3'') = Inr strings"
proof (cases "1 \<le> d")
  case True
  then show ?thesis using assms(2) by (rule remap_succeeds)
next
  case False
  with assms have "d \<le> 0" "device = ''ibmqx3''" "int (length stringRaw) = 16"
    by (auto simp: num_qubits_def)
  with remap_succeeds_device [of d stringRaw] show ?thesis by simp
qed

lemma GetData_loop_remapped:
  assumes "\<forall>item \<in> set resultsRaw. \<exists>strings. remap (fst item) d simulator = Inr strings"
  shows "\<exists>derived. GetData_loop d simulator resultsRaw acc = Inr derived"
  using assms
proof (induction resultsRaw arbitrary: acc)
  case Nil
  show ?case by (intro exI) simp
next
  case (Cons item rest)
  obtain stringRaw v where item: "item = (stringRaw, v)" by (cases item)
  from Cons.prems obtain strings where "remap stringRaw d simulator = Inr strings"
    by (auto simp: item)
  moreover from add_three_succeeds obtain acc' where "add_three v strings acc = Inr acc'"
    by blast
  moreover from Cons.prems
  have "\<forall>item \<in> set rest. \<exists>strings. remap (fst item) d simulator = Inr strings"
    by simp
  ultimately show ?case
    using Cons.IH [of acc'] by (simp add: item py_is_not_def)
qed

lemma to_fractions_numbers:
  assumes "\<forall>item \<in> set results. P (fst item) \<and> is_number (snd item)"
  shows "\<exists>raw. to_fractions results = Inr raw \<and> (\<forall>item \<in> set raw. P (fst item))"
  using assms
proof (induction results)
  case Nil
  show ?case by simp
next
  case (Cons item rest)
  obtain key v where item: "item = (key, v)" by (cases item)
  from Cons.prems have "is_number v" "P key" by (simp_all add: item)
  then obtain x where x: "v = PyNum x" by (cases v) simp_all
  from Cons obtain raw where "to_fractions rest = Inr raw" "\<forall>item \<in> set raw. P (fst item)"
    by auto
  with \<open>P key\<close> show ?case by (simp add: item x)
qed

lemma GetData_bit_first_complete:
  assumes c: "RunRepetition_circuit lib ebit d device = Inr script"
    and which: "d = 1 \<or> device = ''ibmqx3''"
    and answer: "counts_of (num_qubits d (device \<noteq> ''ibmqx3'')) (backend n (job_for d device script))"
  shows "\<exists>derived. GetData_bit lib ebit d device backend n = Some (Inr derived, Suc n)"
proof -
  let ?answer = "backend n (job_for d device script)"
  from answer have complete: "''status'' \<notin> set (keys ?answer)"
    and items: "\<forall>item \<in> set ?answer.
                  int (length (fst item)) = num_qubits d (device \<noteq> ''ibmqx3'') \<and>
                  is_number (snd item)"
    by (simp_all add: counts_of_def)
  from to_fractions_numbers [OF items] obtain raw where
    raw: "to_fractions ?answer = Inr raw"
         "\<forall>item \<in> set raw. int (length (fst item)) = num_qubits d (device \<noteq> ''ibmqx3'')"
    by blast
  from raw(2) remap_succeeds_small [OF which]
  have "\<forall>item \<in> set raw. \<exists>strings. remap (fst item) d (device \<noteq> ''ibmqx3'') = Inr strings"
    by blast
  from GetData_loop_remapped [OF this] obtain derived where
    "GetData_loop d (device \<noteq> ''ibmqx3'') raw ([], [], []) = Inr derived"
    by blast
  with RunRepetition_first_complete [where backend = backend and n = n, OF c complete] raw(1)
  show ?thesis
    by (intro exI [of _ derived]) (simp add: GetData_bit_def)
qed

lemma GetData_errors_returns:
  "\<exists>estimates. GetData_errors [f0, f1] [c0, c1] [s0, s1] = Inr estimates"
proof -
  from CalculateError_float_returns [of 0] obtain f c s where
    "CalculateError_float 0 [f0, f1] = Inr f" "CalculateError_float 0 [c0, c1] = Inr c"
    "CalculateError_float 0 [s0, s1] = Inr s"
    by (metis order_refl)
  moreover from CalculateError_float_returns [of 1] obtain f' c' s' where
    "CalculateError_float 1 [f0, f1] = Inr f'" "CalculateError_float 1 [c0, c1] = Inr c'"
    "CalculateError_float 1 [s0, s1] = Inr s'"
    by (metis order_refl)
  ultimately show ?thesis by (simp add: GetData_errors_def)
qed

lemma GetData_first_complete:
  assumes c0: "RunRepetition_circuit lib 0 d device = Inr script0"
    and c1: "RunRepetition_circuit lib 1 d device = Inr script1"
    and which: "d = 1 \<or> device = ''ibmqx3''"
    and a0: "counts_of (num_qubits d (device \<noteq> ''ibmqx3'')) (backend n (job_for d device script0))"
    and a1: "counts_of (num_qubits d (device \<noteq> ''ibmqx3''))
               (backend (Suc n) (job_for d device script1))"
  shows "\<exists>estimates. GetData lib d device verbose backend n = Some (Inr estimates, Suc (Suc n))"
proof -
  from GetData_bit_first_complete [where backend = backend and n = n, OF c0 which a0]
  obtain full0 code0 single0 where
    b0: "GetData_bit lib 0 d device backend n = Some (Inr (full0, code0, single0), Suc n)"
    by (metis prod_cases3)
  from GetData_bit_first_complete [where backend = backend and n = "Suc n", OF c1 which a1]
  obtain full1 code1 single1 where
    b1: "GetData_bit lib 1 d device backend (Suc n) = Some (Inr (full1, code1, single1), Suc (Suc n))"
    by (metis prod_cases3)
  from GetData_errors_returns obtain estimates where
    "GetData_errors [full0, full1] [code0, code1] [single0, single1] = Inr estimates"
    by blast
  with b0 b1 show ?thesis by (intro exI [of _ estimates]) (simp add: GetData_def)
qed

text \<open>
  Claim C7 says that a code distance \<open>d < 2\<close> is rejected before any job is executed. It
  is not, even with a library that refuses every register that is not of a positive size
  and every address outside a register. With \<open>d = 1\<close> on a simulator \<open>RunRepetition\<close>
  executes a job and returns its fractions, and \<open>GetData\<close> returns error estimates after
  two executions; with \<open>d = 0\<close> on the device, where the registers have 16 bits whatever
  \<open>d\<close> is, the same happens.
\<close>

theorem distance_below_2_is_executed:
  "(1 :: int) < 2 \<and>
   RunRepetition strict_library 1 1 ''local_qasm_simulator'' two_qubit_backend 0
     = Some (Inr [(''00'', 0.75), (''11'', 0.25)], 1) \<and>
   GetData strict_library 1 ''local_qasm_simulator'' False two_qubit_backend 0
     = Some (Inr ([0.5, 0.5], [0.5, 0.5], [0.5, 0.5]), 2) \<and>
   (0 :: int) < 2 \<and>
   RunRepetition strict_library 1 0 ''ibmqx3'' sixteen_qubit_backend 0
     = Some (Inr [(''0000000000000000'', 0.75), (''0000000000110000'', 0.25)], 1) \<and>
   GetData strict_library 0 ''ibmqx3'' False sixteen_qubit_backend 0
     = Some (Inr ([0.5, 0.5], [0.5, 0.5], [0.5, 0.5]), 2)"
proof -
  have "RunRepetition strict_library 1 1 ''local_qasm_simulator'' two_qubit_backend 0
     = Some (Inr [(''00'', 0.75), (''11'', 0.25)], 1)"
    by code_simp
  moreover have "GetData strict_library 1 ''local_qasm_simulator'' False two_qubit_backend 0
     = Some (Inr ([0.5, 0.5], [0.5, 0.5], [0.5, 0.5]), 2)"
    by code_simp
  moreover have "RunRepetition strict_library 1 0 ''ibmqx3'' sixteen_qubit_backend 0
     = Some (Inr [(''0000000000000000'', 0.75), (''0000000000110000'', 0.25)], 1)"
    by code_simp
  moreover have "GetData strict_library 0 ''ibmqx3'' False sixteen_qubit_backend 0
     = Some (Inr ([0.5, 0.5], [0.5, 0.5], [0.5, 0.5]), 2)"
    by code_simp
  ultimately show ?thesis by simp
qed

text \<open>
  Claim C7, amended. A code distance \<open>d \<le> 0\<close> on a simulator is rejected before any job
  is executed when the library refuses to make registers of \<open>2 d\<close> bits: \<open>RunRepetition\<close>
  and \<open>GetData\<close> then raise the error of the library and no job has been executed. The
  notebook itself does not check the distance. For \<open>d = 1\<close>, and for every \<open>d < 2\<close> on the
  device \<^verbatim>\<open>ibmqx3\<close>, with a library that provides the registers (2 bits for \<open>d = 1\<close> on a
  simulator, 16 on the device), \<open>RunRepetition\<close> builds its circuit, every address in it
  inside the registers, never returns without having executed a job, and when the first
  answer of the backend is complete returns that answer, as fractions, after one
  execution; and \<open>GetData\<close> returns error estimates after two executions when the first
  answer for each bit is complete, with a number under every key and every key a string
  of one character per qubit.
\<close>

theorem RunRepetition_no_distance_check:
  "(d \<le> 0 \<and> device \<noteq> ''ibmqx3'' \<and> \<not> makes_registers lib (2 * d) \<longrightarrow>
      RunRepetition lib ebit d device backend n = Some (Inl QISKitError, n) \<and>
      GetData lib d device verbose backend n = Some (Inl QISKitError, n)) \<and>
   (d < 2 \<and> (d = 1 \<or> device = ''ibmqx3'') \<and>
    provides lib (num_qubits d (device \<noteq> ''ibmqx3'')) \<longrightarrow>
      (\<exists>script. RunRepetition_circuit lib ebit d device = Inr script \<and>
         (\<forall>g \<in> set script. well_addressed (num_qubits d (device \<noteq> ''ibmqx3'')) g) \<and>
         (\<forall>r n'. RunRepetition lib ebit d device backend n = Some (r, n') \<longrightarrow> n < n') \<and>
         (''status'' \<notin> set (keys (backend n (job_for d device script))) \<longrightarrow>
            RunRepetition lib ebit d device backend n
              = Some (to_fractions (backend n (job_for d device script)), Suc n))) \<and>
      (\<exists>script0 script1.
         RunRepetition_circuit lib 0 d device = Inr script0 \<and>
         RunRepetition_circuit lib 1 d device = Inr script1 \<and>
         (counts_of (num_qubits d (device \<noteq> ''ibmqx3'')) (backend n (job_for d device script0)) \<and>
          counts_of (num_qubits d (device \<noteq> ''ibmqx3''))
            (backend (Suc n) (job_for d device script1)) \<longrightarrow>
            (\<exists>estimates. GetData lib d device verbose backend n
                            = Some (Inr estimates, Suc (Suc n))))))"
proof (intro conjI impI)
  assume "d \<le> 0 \<and> device \<noteq> ''ibmqx3'' \<and> \<not> makes_registers lib (2 * d)"
  then have no: "\<not> makes_registers lib (num_qubits d (device \<noteq> ''ibmqx3''))"
    by (simp add: num_qubits_def)
  from RunRepetition_refused(1) [OF no]
  show "RunRepetition lib ebit d device backend n = Some (Inl QISKitError, n)" .
  from RunRepetition_refused(2) [OF no]
  show "GetData lib d device verbose backend n = Some (Inl QISKitError, n)" .
next
  assume a: "d < 2 \<and> (d = 1 \<or> device = ''ibmqx3'') \<and>
             provides lib (num_qubits d (device \<noteq> ''ibmqx3''))"
  then have small: "d < 2" and which: "d = 1 \<or> device = ''ibmqx3''"
    and lib: "provides lib (num_qubits d (device \<noteq> ''ibmqx3''))"
    by simp_all
  from circuit_small_distance [OF small which lib] obtain script where
    c: "RunRepetition_circuit lib ebit d device = Inr script"
       "\<forall>g \<in> set script. well_addressed (num_qubits d (device \<noteq> ''ibmqx3'')) g"
    by blast
  with RunRepetition_executes [OF c(1), where backend = backend and n = n]
       RunRepetition_first_complete [where backend = backend and n = n, OF c(1)]
  show "\<exists>script. RunRepetition_circuit lib ebit d device = Inr script \<and>
         (\<forall>g \<in> set script. well_addressed (num_qubits d (device \<noteq> ''ibmqx3'')) g) \<and>
         (\<forall>r n'. RunRepetition lib ebit d device backend n = Some (r, n') \<longrightarrow> n < n') \<and>
         (''status'' \<notin> set (keys (backend n (job_for d device script))) \<longrightarrow>
            RunRepetition lib ebit d device backend n
              = Some (to_fractions (backend n (job_for d device script)), Suc n))"
    by blast
  from circuit_small_distance [OF small which lib] obtain script0 script1 where
    c0: "RunRepetition_circuit lib 0 d device = Inr script0" and
    c1: "RunRepetition_circuit lib 1 d device = Inr script1"
    by blast
  with GetData_first_complete [where backend = backend and n = n and verbose = verbose,
         OF c0 c1 which]
  show "\<exists>script0 script1.
         RunRepetition_circuit lib 0 d device = Inr script0 \<and>
         RunRepetition_circuit lib 1 d device = Inr script1 \<and>
         (counts_of (num_qubits d (device \<noteq> ''ibmqx3'')) (backend n (job_for d device script0)) \<and>
          counts_of (num_qubits d (device \<noteq> ''ibmqx3''))
            (backend (Suc n) (job_for d device script1)) \<longrightarrow>
            (\<exists>estimates. GetData lib d device verbose backend n
                            = Some (Inr estimates, Suc (Suc n))))"
    by blast
qed

theorem RunRepetition_no_distance_check_witness:
  "(0 :: int) \<le> 0 \<and> ''local_qasm_simulator'' \<noteq> ''ibmqx3'' \<and>
   \<not> makes_registers strict_library (2 * 0) \<and>
   RunRepetition strict_library 1 0 ''local_qasm_simulator'' two_qubit_backend 0
     = Some (Inl QISKitError, 0) \<and>
   GetData strict_library 0 ''local_qasm_simulator'' False two_qubit_backend 0
     = Some (Inl QISKitError, 0) \<and>
   (1 :: int) < 2 \<and>
   provides strict_library (num_qubits 1 (''local_qasm_simulator'' \<noteq> ''ibmqx3'')) \<and>
   (\<exists>script. RunRepetition_circuit strict_library 1 1 ''local_qasm_simulator'' = Inr script \<and>
      counts_of 2 (two_qubit_backend 0 (job_for 1 ''local_qasm_simulator'' script)) \<and>
      RunRepetition strict_library 1 1 ''local_qasm_simulator'' two_qubit_backend 0
        = Some (to_fractions (two_qubit_backend 0 (job_for 1 ''local_qasm_simulator'' script)),
                Suc 0)) \<and>
   (\<exists>estimates. GetData strict_library 1 ''local_qasm_simulator'' False two_qubit_backend 0
                    = Some (Inr estimates, Suc (Suc 0)))"
proof -
  have sim: "''local_qasm_simulator'' \<noteq> ''ibmqx3''" by simp
  have no: "\<not> makes_registers strict_library (2 * 0)"
    by (simp add: strict_library_def)
  have lib: "provides strict_library (num_qubits 1 (''local_qasm_simulator'' \<noteq> ''ibmqx3''))"
    by (simp add: provides_def strict_library_def num_qubits_def)
  have counts: "counts_of 2 (two_qubit_backend k j)" for k j
    by (simp add: counts_of_def two_qubit_backend_def keys_def)
  then have complete: "''status'' \<notin> set (keys (two_qubit_backend k j))" for k j
    by (simp add: counts_of_def)
  have two: "num_qubits 1 (''local_qasm_simulator'' \<noteq> ''ibmqx3'') = 2"
    by (simp add: num_qubits_def)
  from RunRepetition_no_distance_check
         [where d = 0 and device = "''local_qasm_simulator''" and lib = strict_library
            and ebit = 1 and backend = two_qubit_backend and n = 0 and verbose = False]
       sim no
  have refused:
    "RunRepetition strict_library 1 0 ''local_qasm_simulator'' two_qubit_backend 0
       = Some (Inl QISKitError, 0)"
    "GetData strict_library 0 ''local_qasm_simulator'' False two_qubit_backend 0
       = Some (Inl QISKitError, 0)"
    by simp_all
  from RunRepetition_no_distance_check
         [where d = 1 and device = "''local_qasm_simulator''" and lib = strict_library
            and ebit = 1 and backend = two_qubit_backend and n = 0 and verbose = False]
       lib
  have run:
    "\<exists>script. RunRepetition_circuit strict_library 1 1 ''local_qasm_simulator'' = Inr script \<and>
       RunRepetition strict_library 1 1 ''local_qasm_simulator'' two_qubit_backend 0
         = Some (to_fractions (two_qubit_backend 0 (job_for 1 ''local_qasm_simulator'' script)),
                 Suc 0)"
    and estimates:
    "\<exists>estimates. GetData strict_library 1 ''local_qasm_simulator'' False two_qubit_backend 0
                     = Some (Inr estimates, Suc (Suc 0))"
    unfolding two using counts complete by auto
  from run counts have
    "\<exists>script. RunRepetition_circuit strict_library 1 1 ''local_qasm_simulator'' = Inr script \<and>
       counts_of 2 (two_qubit_backend 0 (job_for 1 ''local_qasm_simulator'' script)) \<and>
       RunRepetition strict_library 1 1 ''local_qasm_simulator'' two_qubit_backend 0
         = Some (to_fractions (two_qubit_backend 0 (job_for 1 ''local_qasm_simulator'' script)),
                 Suc 0)"
    by blast
  with sim no lib refused estimates show ?thesis
    by simp
qed

section \<open>Mean and variance of the runs\<close>





























end
